theory Spec2Isabelle
  imports Main "HOL-Library.Word"
begin

unbundle bit_operations_syntax

section \<open>Python values, errors and the receiver object\<close>

text \<open>
  The module \<^verbatim>\<open>0x02-redis_basic/exercise.py\<close> is a thin layer over a Redis database.
  Byte strings are \<open>string\<close> (a list of 8-bit characters). A Python \<open>str\<close> is
  represented by its UTF-8 encoding, so \<open>s.encode("utf-8")\<close> is the identity on the
  representation and \<open>b.decode("utf-8")\<close> succeeds exactly on well-formed UTF-8. A
  \<open>str\<close> holding a lone surrogate has no UTF-8 encoding and is not representable.
  A float is its 64-bit pattern (IEEE 754 binary64); a UUID is its 128-bit integer.
  An int is unbounded, but CPython (3.11, and the security releases of 3.7 to 3.10)
  refuses to convert between an int and a decimal text of more than 4300 digits.
\<close>

type_synonym bytes = string

datatype pyval =
    PNone
  | PBool bool
  | PInt int
  | PFloat "64 word"
  | PStr string
  | PBytes bytes

datatype pyerr =
    AttributeError
  | TypeError
  | ValueError
  | UnicodeDecodeError
  | DataError
  | ResponseError

text \<open>
  What the decorators inspect of \<open>self\<close>: whether it is an instance of \<open>Cache\<close>, and
  what its attribute \<open>_redis\<close> holds: nothing (the attribute does not exist), a
  \<open>redis.Redis\<close> client, or a value of another type without the client's methods
  (for example \<open>None\<close>).
\<close>

datatype attr = NoAttr | RedisClient | OtherValue

record pyobj =
  is_Cache :: bool
  redis_attr :: attr

text \<open>
  CPython's \<open>repr\<close> of a finite float, of a \<open>str\<close> and of a \<open>bytes\<close> object, and
  its reading of a float from a text, are not code of this module; they are carried as
  parameters of the functions that call them. What \<open>repr\<close> and \<open>float\<close> do with the
  infinities and with NaN is written out below (\<open>float_repr\<close>, \<open>py_float\<close>).
\<close>

record runtime =
  repr_float :: "64 word \<Rightarrow> string"
  repr_str :: "string \<Rightarrow> string"
  repr_bytes :: "bytes \<Rightarrow> string"
  parse_float :: "bytes \<Rightarrow> pyerr + 64 word"

section \<open>Text: decimal numerals, tuples, UTF-8, UUIDs\<close>

definition digit_char :: "nat \<Rightarrow> char" where
  "digit_char d = char_of (48 + d)"

definition is_digit :: "char \<Rightarrow> bool" where
  "is_digit c = (48 \<le> (of_char c :: nat) \<and> (of_char c :: nat) \<le> 57)"

definition digit_val :: "char \<Rightarrow> nat" where
  "digit_val c = of_char c - 48"

function digits :: "nat \<Rightarrow> string" where
  "digits n = (if n < 10 then [digit_char n] else digits (n div 10) @ [digit_char (n mod 10)])"
  by pat_completeness auto
termination
  by (relation "measure (\<lambda>n. n)") auto

declare digits.simps [simp del]

text \<open>The decimal numeral of an integer, with a minus sign when negative.\<close>

definition int_repr :: "int \<Rightarrow> string" where
  "int_repr i = (if i < 0 then CHR ''-'' # digits (nat (- i)) else digits (nat i))"

text \<open>
  \<open>repr(n)\<close> and \<open>str(n)\<close> of a Python int: its numeral, or \<open>ValueError\<close> when the
  numeral has more digits than \<open>sys.get_int_max_str_digits()\<close>, which is 4300 unless
  the program changes it (this module does not).
\<close>

definition int_max_str_digits :: nat where
  "int_max_str_digits = 4300"

definition py_int_repr :: "int \<Rightarrow> pyerr + string" where
  "py_int_repr i =
     (if int_max_str_digits < length (digits (nat \<bar>i\<bar>)) then Inl ValueError
      else Inr (int_repr i))"

definition digits_value :: "string \<Rightarrow> nat" where
  "digits_value ds = foldl (\<lambda>acc c. 10 * acc + digit_val c) 0 ds"

text \<open>
  \<open>int(b)\<close> on a bytes object: ASCII whitespace is stripped at both ends, one sign is
  allowed, then decimal digits, with single underscores allowed between digits. More
  than 4300 digits (underscores not counted) are a \<open>ValueError\<close>, as is every text
  that is not of this form.
\<close>

definition is_space :: "char \<Rightarrow> bool" where
  "is_space c = ((of_char c :: nat) = 32 \<or> (9 \<le> (of_char c :: nat) \<and> (of_char c :: nat) \<le> 13))"

definition strip :: "string \<Rightarrow> string" where
  "strip b = rev (dropWhile is_space (rev (dropWhile is_space b)))"

fun digit_groups :: "string \<Rightarrow> bool" where
  "digit_groups [] = False"
| "digit_groups [c] = is_digit c"
| "digit_groups (c # d # cs) =
     (is_digit c \<and> (if d = CHR ''_'' then digit_groups cs else digit_groups (d # cs)))"

definition int_of_bytes :: "bytes \<Rightarrow> pyerr + int" where
  "int_of_bytes b =
     (let t = strip b;
          neg = (t \<noteq> [] \<and> hd t = CHR ''-'');
          r = (if t \<noteq> [] \<and> (hd t = CHR ''-'' \<or> hd t = CHR ''+'') then tl t else t)
      in if digit_groups r \<and> length (filter (\<lambda>c. c \<noteq> CHR ''_'') r) \<le> int_max_str_digits
         then Inr ((if neg then - 1 else 1) * int (digits_value (filter (\<lambda>c. c \<noteq> CHR ''_'') r)))
         else Inl ValueError)"

text \<open>
  Floats. A NaN has all exponent bits set and a fraction that is not zero. \<open>float_eq\<close>
  is \<open>==\<close> on floats: a NaN equals nothing, not even itself; the two zeros are equal;
  otherwise floats are equal when their bits are.
\<close>

definition is_nan :: "64 word \<Rightarrow> bool" where
  "is_nan x = (x AND 0x7FF0000000000000 = 0x7FF0000000000000 \<and> x AND 0x000FFFFFFFFFFFFF \<noteq> 0)"


definition pos_inf :: "64 word" where
  "pos_inf = 0x7FF0000000000000"

definition neg_inf :: "64 word" where
  "neg_inf = 0xFFF0000000000000"


text \<open>
  \<open>repr(x)\<close> of a float: \<open>nan\<close> for every NaN, \<open>inf\<close> and \<open>-inf\<close> for the
  infinities, and the parameter for a finite float.
\<close>

definition float_repr :: "runtime \<Rightarrow> 64 word \<Rightarrow> string" where
  "float_repr rt x =
     (if is_nan x then ''nan''
      else if x = pos_inf then ''inf''
      else if x = neg_inf then ''-inf''
      else repr_float rt x)"

text \<open>
  \<open>repr\<close> of the values of the model, and \<open>str(args)\<close> of a tuple of them: the
  \<open>repr\<close> of each element in turn, the first exception ending it.
\<close>

fun py_repr :: "runtime \<Rightarrow> pyval \<Rightarrow> pyerr + string" where
  "py_repr rt PNone = Inr ''None''"
| "py_repr rt (PBool b) = Inr (if b then ''True'' else ''False'')"
| "py_repr rt (PInt n) = py_int_repr n"
| "py_repr rt (PFloat x) = Inr (float_repr rt x)"
| "py_repr rt (PStr s) = Inr (repr_str rt s)"
| "py_repr rt (PBytes b) = Inr (repr_bytes rt b)"

fun py_reprs :: "runtime \<Rightarrow> pyval list \<Rightarrow> pyerr + string list" where
  "py_reprs rt [] = Inr []"
| "py_reprs rt (x # xs) =
     (case py_repr rt x of
        Inl e \<Rightarrow> Inl e
      | Inr t \<Rightarrow> (case py_reprs rt xs of Inl e \<Rightarrow> Inl e | Inr ts \<Rightarrow> Inr (t # ts)))"

fun join_comma :: "string list \<Rightarrow> string" where
  "join_comma [] = []"
| "join_comma [x] = x"
| "join_comma (x # y # ys) = x @ '', '' @ join_comma (y # ys)"

definition py_str_tuple :: "runtime \<Rightarrow> pyval list \<Rightarrow> pyerr + string" where
  "py_str_tuple rt args =
     (case py_reprs rt args of
        Inl e \<Rightarrow> Inl e
      | Inr [t] \<Rightarrow> Inr (''('' @ t @ '',)'')
      | Inr ts \<Rightarrow> Inr (''('' @ join_comma ts @ '')''))"

text \<open>
  Well-formed UTF-8 (strict, as \<open>bytes.decode("utf-8")\<close> checks it): no overlong forms,
  no surrogates, nothing above U+10FFFF, no truncated sequence.
\<close>

definition is_cont :: "char \<Rightarrow> bool" where
  "is_cont c = (128 \<le> (of_char c :: nat) \<and> (of_char c :: nat) \<le> 191)"

definition in_range :: "nat \<Rightarrow> nat \<Rightarrow> char \<Rightarrow> bool" where
  "in_range lo hi c = (lo \<le> (of_char c :: nat) \<and> (of_char c :: nat) \<le> hi)"

text \<open>For a lead byte: the number of bytes that follow and the range of the first of them.\<close>

definition utf8_lead :: "char \<Rightarrow> (nat \<times> nat \<times> nat) option" where
  "utf8_lead c =
     (let b = (of_char c :: nat) in
      if b < 128 then Some (0, 0, 0)
      else if 194 \<le> b \<and> b \<le> 223 then Some (1, 128, 191)
      else if b = 224 then Some (2, 160, 191)
      else if b = 237 then Some (2, 128, 159)
      else if 225 \<le> b \<and> b \<le> 239 then Some (2, 128, 191)
      else if b = 240 then Some (3, 144, 191)
      else if 241 \<le> b \<and> b \<le> 243 then Some (3, 128, 191)
      else if b = 244 then Some (3, 128, 143)
      else None)"

function valid_utf8 :: "bytes \<Rightarrow> bool" where
  "valid_utf8 [] = True"
| "valid_utf8 (c # cs) =
     (case utf8_lead c of
        None \<Rightarrow> False
      | Some (n, lo, hi) \<Rightarrow>
          n \<le> length cs
          \<and> (n = 0 \<or> in_range lo hi (hd cs))
          \<and> list_all is_cont (tl (take n cs))
          \<and> valid_utf8 (drop n cs))"
  by pat_completeness auto
termination
  by (relation "measure length") auto

definition utf8_decode :: "bytes \<Rightarrow> pyerr + string" where
  "utf8_decode b = (if valid_utf8 b then Inr b else Inl UnicodeDecodeError)"

text \<open>\<open>str(u)\<close> of a UUID: 32 lower-case hexadecimal digits, grouped 8-4-4-4-12.\<close>

definition hex_digit :: "nat \<Rightarrow> char" where
  "hex_digit d = (''0123456789abcdef'' ! d)"

definition hex32 :: "128 word \<Rightarrow> string" where
  "hex32 u = map (\<lambda>i. hex_digit ((unat u div 16 ^ i) mod 16)) (rev [0..<32])"

definition uuid_str :: "128 word \<Rightarrow> string" where
  "uuid_str u =
     (let h = hex32 u in
      take 8 h @ ''-'' @ take 4 (drop 8 h) @ ''-'' @ take 4 (drop 12 h) @ ''-''
        @ take 4 (drop 16 h) @ ''-'' @ drop 20 h)"

section \<open>The key-value store\<close>

text \<open>
  Modelled from the spec: the KeyValueStore collaborator of section 6 (the Redis server
  reached through the \<open>redis-py\<close> client), which is not code of this repository. A key
  holds a byte string or a list of byte strings; a command on a key of the other kind
  is refused (\<open>ResponseError\<close>). Counters are byte strings holding the canonical
  numeral of a signed 64-bit integer. The client encodes \<open>bytes\<close> as they are, a
  \<open>str\<close> in UTF-8, an int or a float as its \<open>repr\<close> (which raises for an int of
  more than 4300 digits), and refuses other values (\<open>DataError\<close>). Every client object is connected to the same database, which is
  assumed reachable. A command returns its outcome and the database after it.
\<close>

datatype rval = RStr bytes | RList "bytes list"

type_synonym redis = "string \<Rightarrow> rval option"

fun encode :: "runtime \<Rightarrow> pyval \<Rightarrow> pyerr + bytes" where
  "encode rt (PBytes b) = Inr b"
| "encode rt (PBool b) = Inl DataError"
| "encode rt (PInt n) = py_int_repr n"
| "encode rt (PFloat x) = Inr (float_repr rt x)"
| "encode rt (PStr s) = Inr s"
| "encode rt PNone = Inl DataError"

definition string2ll :: "bytes \<Rightarrow> int option" where
  "string2ll b =
     (let neg = (b \<noteq> [] \<and> hd b = CHR ''-'');
          r = (if neg then tl b else b);
          v = (if neg then - int (digits_value r) else int (digits_value r))
      in if r \<noteq> [] \<and> list_all is_digit r \<and> int_repr v = b
            \<and> - (2 ^ 63) \<le> v \<and> v < 2 ^ 63
         then Some v else None)"

definition redis_flushdb :: "redis \<Rightarrow> (pyerr + unit) \<times> redis" where
  "redis_flushdb s = (Inr (), Map.empty)"

definition redis_set :: "runtime \<Rightarrow> string \<Rightarrow> pyval \<Rightarrow> redis \<Rightarrow> (pyerr + unit) \<times> redis" where
  "redis_set rt key v s =
     (case encode rt v of
        Inl e \<Rightarrow> (Inl e, s)
      | Inr b \<Rightarrow> (Inr (), s(key \<mapsto> RStr b)))"

definition redis_get :: "string \<Rightarrow> redis \<Rightarrow> (pyerr + pyval) \<times> redis" where
  "redis_get key s =
     (case s key of
        None \<Rightarrow> (Inr PNone, s)
      | Some (RStr b) \<Rightarrow> (Inr (PBytes b), s)
      | Some (RList xs) \<Rightarrow> (Inl ResponseError, s))"

definition redis_incr :: "string \<Rightarrow> redis \<Rightarrow> (pyerr + int) \<times> redis" where
  "redis_incr key s =
     (case s key of
        None \<Rightarrow> (Inr 1, s(key \<mapsto> RStr (int_repr 1)))
      | Some (RList xs) \<Rightarrow> (Inl ResponseError, s)
      | Some (RStr b) \<Rightarrow>
          (case string2ll b of
             None \<Rightarrow> (Inl ResponseError, s)
           | Some n \<Rightarrow>
               if n = 2 ^ 63 - 1 then (Inl ResponseError, s)
               else (Inr (n + 1), s(key \<mapsto> RStr (int_repr (n + 1))))))"

definition redis_rpush :: "runtime \<Rightarrow> string \<Rightarrow> pyval \<Rightarrow> redis \<Rightarrow> (pyerr + nat) \<times> redis" where
  "redis_rpush rt key v s =
     (case encode rt v of
        Inl e \<Rightarrow> (Inl e, s)
      | Inr b \<Rightarrow>
          (case s key of
             None \<Rightarrow> (Inr 1, s(key \<mapsto> RList [b]))
           | Some (RList xs) \<Rightarrow> (Inr (Suc (length xs)), s(key \<mapsto> RList (xs @ [b])))
           | Some (RStr c) \<Rightarrow> (Inl ResponseError, s)))"

definition redis_lrange :: "string \<Rightarrow> int \<Rightarrow> int \<Rightarrow> redis \<Rightarrow> (pyerr + bytes list) \<times> redis" where
  "redis_lrange key start stop s =
     (case s key of
        None \<Rightarrow> (Inr [], s)
      | Some (RStr c) \<Rightarrow> (Inl ResponseError, s)
      | Some (RList xs) \<Rightarrow>
          (let n = int (length xs);
               a = max 0 (if start < 0 then n + start else start);
               b = min (n - 1) (if stop < 0 then n + stop else stop)
           in (Inr (if b < a then [] else take (nat (b - a + 1)) (drop (nat a) xs)), s)))"

section \<open>The module\<close>

text \<open>
  A method is its \<open>__qualname__\<close> and its body. The body receives \<open>self\<close>, the
  positional arguments, the keyword arguments and the database, and returns its outcome
  (the value returned or the exception raised) with the database after it: what was
  written before an exception stays written. \<open>functools.wraps\<close> copies the
  \<open>__qualname__\<close> of the wrapped method to the wrapper.
\<close>

type_synonym kwargs = "(string \<times> pyval) list"

record pymethod =
  qualname :: string
  call :: "pyobj \<Rightarrow> pyval list \<Rightarrow> kwargs \<Rightarrow> redis \<Rightarrow> (pyerr + pyval) \<times> redis"

text \<open>
  The test \<open>isinstance(self, Cache) and isinstance(self._redis, redis.Redis)\<close>. The
  conjunction is short-circuit: \<open>self._redis\<close> is only read when \<open>self\<close> is a
  \<open>Cache\<close>, and reading an attribute that does not exist raises.
\<close>

definition recognized :: "pyobj \<Rightarrow> pyerr + bool" where
  "recognized self =
     (if \<not> is_Cache self then Inr False
      else case redis_attr self of
             NoAttr \<Rightarrow> Inl AttributeError
           | RedisClient \<Rightarrow> Inr True
           | OtherValue \<Rightarrow> Inr False)"

definition count_calls :: "pymethod \<Rightarrow> pymethod" where
  "count_calls m =
     \<lparr>qualname = qualname m,
      call = (\<lambda>self args kw s.
        case recognized self of
          Inl e \<Rightarrow> (Inl e, s)
        | Inr False \<Rightarrow> call m self args kw s
        | Inr True \<Rightarrow>
            (case redis_incr (qualname m) s of
               (Inl e, s1) \<Rightarrow> (Inl e, s1)
             | (Inr n, s1) \<Rightarrow> call m self args kw s1))\<rparr>"

definition call_history :: "runtime \<Rightarrow> pymethod \<Rightarrow> pymethod" where
  "call_history rt m =
     \<lparr>qualname = qualname m,
      call = (\<lambda>self args kw s.
        let input = qualname m @ '':inputs'';
            output = qualname m @ '':outputs''
        in case call m self args kw s of
             (Inl e, s1) \<Rightarrow> (Inl e, s1)
           | (Inr return_value, s1) \<Rightarrow>
               (case recognized self of
                  Inl e \<Rightarrow> (Inl e, s1)
                | Inr False \<Rightarrow> (Inr return_value, s1)
                | Inr True \<Rightarrow>
                    (case py_str_tuple rt args of
                       Inl e \<Rightarrow> (Inl e, s1)
                     | Inr text \<Rightarrow>
                         (case redis_rpush rt input (PStr text) s1 of
                            (Inl e, s2) \<Rightarrow> (Inl e, s2)
                          | (Inr n, s2) \<Rightarrow>
                              (case redis_rpush rt output return_value s2 of
                                 (Inl e, s3) \<Rightarrow> (Inl e, s3)
                               | (Inr k, s3) \<Rightarrow> (Inr return_value, s3))))))\<rparr>"

text \<open>\<open>Cache.__init__\<close>: a new client, then \<open>flushdb\<close>.\<close>

definition Cache_init :: "redis \<Rightarrow> (pyerr + pyobj) \<times> redis" where
  "Cache_init s =
     (let self = \<lparr>is_Cache = True, redis_attr = RedisClient\<rparr>
      in case redis_flushdb s of
           (Inl e, s1) \<Rightarrow> (Inl e, s1)
         | (Inr u, s1) \<Rightarrow> (Inr self, s1))"

text \<open>
  Binding the call \<open>store(self, *args, **kwargs)\<close> to the signature
  \<open>store(self, data)\<close>: one positional argument, or the keyword \<open>data\<close>; anything
  else is a \<open>TypeError\<close>.
\<close>

fun bind_data :: "pyval list \<Rightarrow> kwargs \<Rightarrow> pyerr + pyval" where
  "bind_data [d] [] = Inr d"
| "bind_data [] [(k, d)] = (if k = ''data'' then Inr d else Inl TypeError)"
| "bind_data args kw = Inl TypeError"

text \<open>
  The undecorated body of \<open>Cache.store\<close>, in the run where \<open>uuid.uuid4()\<close> returns the
  UUID \<open>u\<close>. A \<open>_redis\<close> that is missing or is not a client has no method \<open>set\<close>.
\<close>

definition store_raw :: "runtime \<Rightarrow> 128 word \<Rightarrow> pymethod" where
  "store_raw rt u =
     \<lparr>qualname = ''Cache.store'',
      call = (\<lambda>self args kw s.
        case bind_data args kw of
          Inl e \<Rightarrow> (Inl e, s)
        | Inr data \<Rightarrow>
            (let key = uuid_str u
             in case redis_attr self of
                  RedisClient \<Rightarrow>
                    (case redis_set rt key data s of
                       (Inl e, s1) \<Rightarrow> (Inl e, s1)
                     | (Inr r, s1) \<Rightarrow> (Inr (PStr key), s1))
                | _ \<Rightarrow> (Inl AttributeError, s)))\<rparr>"

text \<open>\<open>Cache.store\<close> as the class defines it: \<open>@count_calls\<close> above \<open>@call_history\<close>.\<close>

definition Cache_store :: "runtime \<Rightarrow> 128 word \<Rightarrow> pymethod" where
  "Cache_store rt u = count_calls (call_history rt (store_raw rt u))"

text \<open>
  \<open>Cache.get\<close>. The conversion function \<open>fn\<close> is a function of the value read; it is
  taken not to touch the database, and to be truthy when given (\<open>if fn:\<close>), as every
  function and class is.
\<close>

definition Cache_get ::
  "pyobj \<Rightarrow> string \<Rightarrow> (pyval \<Rightarrow> pyerr + pyval) option \<Rightarrow> redis \<Rightarrow> (pyerr + pyval) \<times> redis" where
  "Cache_get self key fn s =
     (case redis_attr self of
        RedisClient \<Rightarrow>
          (case redis_get key s of
             (Inl e, s1) \<Rightarrow> (Inl e, s1)
           | (Inr data, s1) \<Rightarrow>
               (case fn of
                  Some f \<Rightarrow> (f data, s1)
                | None \<Rightarrow> (Inr data, s1)))
      | _ \<Rightarrow> (Inl AttributeError, s))"

text \<open>
  \<open>value.decode("utf-8")\<close> and \<open>int(value)\<close>. Without \<open>fn\<close>, \<open>Cache.get\<close> returns
  \<open>None\<close> or bytes (\<open>Cache_get_raw_values\<close> below). Only bytes have a method
  \<open>decode\<close>. \<open>int(None)\<close> is a \<open>TypeError\<close>; \<open>int\<close> of a \<open>str\<close>, a float or a
  bool does not arise in this module and is not modelled: it is given the same value.
  \<open>float(b)\<close> on bytes strips ASCII whitespace; the texts \<open>nan\<close>, \<open>inf\<close> and
  \<open>-inf\<close> give the quiet NaN and the infinities, every other text is left to the
  parameter. \<open>float(None)\<close> is a \<open>TypeError\<close>, and so is left \<open>float\<close> of the
  values that do not arise here.
\<close>

fun bytes_decode :: "pyval \<Rightarrow> pyerr + pyval" where
  "bytes_decode (PBytes b) = (case utf8_decode b of Inl e \<Rightarrow> Inl e | Inr t \<Rightarrow> Inr (PStr t))"
| "bytes_decode v = Inl AttributeError"

fun py_int :: "pyval \<Rightarrow> pyerr + pyval" where
  "py_int (PBytes b) = (case int_of_bytes b of Inl e \<Rightarrow> Inl e | Inr n \<Rightarrow> Inr (PInt n))"
| "py_int (PInt n) = Inr (PInt n)"
| "py_int v = Inl TypeError"


definition Cache_get_str :: "pyobj \<Rightarrow> string \<Rightarrow> redis \<Rightarrow> (pyerr + pyval) \<times> redis" where
  "Cache_get_str self key s =
     (case Cache_get self key None s of
        (Inl e, s1) \<Rightarrow> (Inl e, s1)
      | (Inr v, s1) \<Rightarrow> (if v = PNone then (Inr PNone, s1) else (bytes_decode v, s1)))"

definition Cache_get_int :: "pyobj \<Rightarrow> string \<Rightarrow> redis \<Rightarrow> (pyerr + pyval) \<times> redis" where
  "Cache_get_int self key s =
     (case Cache_get self key None s of
        (Inl e, s1) \<Rightarrow> (Inl e, s1)
      | (Inr v, s1) \<Rightarrow> (if v = PNone then (Inr PNone, s1) else (py_int v, s1)))"

text \<open>
  \<open>replay\<close>: the outcome, the lines printed, and the database after it. The loop stops
  at the first entry that does not decode; the lines before it have been printed.
\<close>

fun replay_loop :: "string \<Rightarrow> (bytes \<times> bytes) list \<Rightarrow> (pyerr + unit) \<times> string list" where
  "replay_loop name [] = (Inr (), [])"
| "replay_loop name ((inp, outp) # rest) =
     (case utf8_decode inp of
        Inl e \<Rightarrow> (Inl e, [])
      | Inr i \<Rightarrow>
          (case utf8_decode outp of
             Inl e \<Rightarrow> (Inl e, [])
           | Inr ou \<Rightarrow>
               (case replay_loop name rest of
                  (r, ls) \<Rightarrow> (r, (name @ ''(*'' @ i @ '') -> '' @ ou) # ls))))"

definition replay :: "pymethod \<Rightarrow> redis \<Rightarrow> (pyerr + unit) \<times> string list \<times> redis" where
  "replay m s =
     (let name = qualname m
      in case redis_lrange (name @ '':inputs'') 0 (- 1) s of
           (Inl e, s1) \<Rightarrow> (Inl e, [], s1)
         | (Inr inputs, s1) \<Rightarrow>
             (case redis_lrange (name @ '':outputs'') 0 (- 1) s1 of
                (Inl e, s2) \<Rightarrow> (Inl e, [], s2)
              | (Inr outputs, s2) \<Rightarrow>
                  (case replay_loop name (zip inputs outputs) of
                     (r, ls) \<Rightarrow>
                       (r, (name @ '' was called '' @ int_repr (int (length inputs)) @ '' times:'')
                             # ls, s2))))"

text \<open>A run of calls to \<open>Cache.store\<close>, one after the other: the outcomes and the database.\<close>

fun store_calls ::
  "runtime \<Rightarrow> pyobj \<Rightarrow> (pyval list \<times> kwargs \<times> 128 word) list \<Rightarrow> redis
     \<Rightarrow> (pyerr + pyval) list \<times> redis" where
  "store_calls rt self [] s = ([], s)"
| "store_calls rt self ((args, kw, u) # cs) s =
     (case call (Cache_store rt u) self args kw s of
        (r, s1) \<Rightarrow> (case store_calls rt self cs s1 of (rs, s2) \<Rightarrow> (r # rs, s2)))"

text \<open>
  Reading the database as section 3 of the specification describes it: a counter that
  is absent counts as zero, a log that is absent is empty.
\<close>

definition counter_of :: "redis \<Rightarrow> string \<Rightarrow> int option" where
  "counter_of s name =
     (case s name of
        None \<Rightarrow> Some 0
      | Some (RStr b) \<Rightarrow> string2ll b
      | Some (RList xs) \<Rightarrow> None)"

definition log_of :: "redis \<Rightarrow> string \<Rightarrow> bytes list option" where
  "log_of s name =
     (case s name of
        None \<Rightarrow> Some []
      | Some (RList xs) \<Rightarrow> Some xs
      | Some (RStr b) \<Rightarrow> None)"


section \<open>Objects of the examples\<close>

text \<open>A \<open>Cache\<close> instance as its constructor leaves it.\<close>

definition a_cache :: pyobj where
  "a_cache = \<lparr>is_Cache = True, redis_attr = RedisClient\<rparr>"

text \<open>
  A runtime for the examples. Its \<open>repr\<close> of a \<open>str\<close> and of a \<open>bytes\<close> object is
  CPython's on printable ASCII text without quotes and backslashes; the only floats of
  the examples are the infinities and NaN, which do not reach its two float parameters.
\<close>

definition ascii_runtime :: runtime where
  "ascii_runtime =
     \<lparr>repr_float = (\<lambda>x. ''0.0''),
      repr_str = (\<lambda>t. [CHR 0x27] @ t @ [CHR 0x27]),
      repr_bytes = (\<lambda>b. ''b'' @ [CHR 0x27] @ b @ [CHR 0x27]),
      parse_float = (\<lambda>b. Inl ValueError)\<rparr>"

text \<open>
  A method of some class, to be decorated: it leaves a mark in the database, so that one
  can tell whether it ran, and returns 1.
\<close>

definition probe :: "pymethod" where
  "probe =
     \<lparr>qualname = ''Probe.run'',
      call = (\<lambda>self args kw s. (Inr (PInt 1), s(''ran'' \<mapsto> RStr ''yes'')))\<rparr>"

text \<open>The database with no key, and three receivers that the decorators do not recognise.\<close>

definition empty_db :: redis where
  "empty_db = Map.empty"

definition cache_without_attr :: pyobj where
  "cache_without_attr = \<lparr>is_Cache = True, redis_attr = NoAttr\<rparr>"

definition cache_with_None :: pyobj where
  "cache_with_None = \<lparr>is_Cache = True, redis_attr = OtherValue\<rparr>"

definition other_object :: pyobj where
  "other_object = \<lparr>is_Cache = False, redis_attr = NoAttr\<rparr>"

text \<open>The least int that \<open>repr\<close> refuses: a one followed by 4300 zeros.\<close>

definition huge_int :: int where
  "huge_int = 10 ^ int_max_str_digits"

section \<open>Facts about the text functions\<close>

lemma length_hex32: "length (hex32 u) = 32"
  by (simp add: hex32_def)

lemma length_uuid_str: "length (uuid_str u) = 36"
  by (simp add: uuid_str_def Let_def length_hex32)

lemma uuid_str_not_name:
  "uuid_str u \<noteq> ''Cache.store''"
  "uuid_str u \<noteq> ''Cache.store'' @ '':inputs''"
  "uuid_str u \<noteq> ''Cache.store'' @ '':outputs''"
  using length_uuid_str [of u] by auto

lemma is_digit_digit_char: "d < 10 \<Longrightarrow> is_digit (digit_char d)"
  by (simp add: is_digit_def digit_char_def)

lemma digit_val_digit_char: "d < 10 \<Longrightarrow> digit_val (digit_char d) = d"
  by (simp add: digit_val_def digit_char_def)

lemma digits_not_Nil: "digits n \<noteq> []"
  by (subst digits.simps) simp

lemma digits_all_digit: "list_all is_digit (digits n)"
proof (induction n rule: digits.induct)
  case (1 n)
  show ?case
  proof (cases "n < 10")
    case True
    then show ?thesis by (subst digits.simps) (simp add: is_digit_digit_char)
  next
    case False
    with 1 show ?thesis by (subst digits.simps) (simp add: is_digit_digit_char)
  qed
qed

lemma digits_value_digits: "digits_value (digits n) = n"
proof (induction n rule: digits.induct)
  case (1 n)
  show ?case
  proof (cases "n < 10")
    case True
    then show ?thesis
      by (subst digits.simps) (simp add: digits_value_def digit_val_digit_char)
  next
    case False
    with 1 have "digits_value (digits (n div 10)) = n div 10" by simp
    with False show ?thesis
      by (subst digits.simps) (simp add: digits_value_def digit_val_digit_char)
  qed
qed


lemma digit_not_space: "is_digit c \<Longrightarrow> \<not> is_space c"
  by (simp add: is_digit_def is_space_def)

lemma digit_not_sign: "is_digit c \<Longrightarrow> c \<noteq> CHR ''-'' \<and> c \<noteq> CHR ''+'' \<and> c \<noteq> CHR ''_''"
  by (auto simp: is_digit_def)

lemma minus_not_space: "\<not> is_space CHR ''-''"
  by (simp add: is_space_def)

lemma dropWhile_hd: "xs \<noteq> [] \<Longrightarrow> \<not> P (hd xs) \<Longrightarrow> dropWhile P xs = xs"
  by (cases xs) simp_all

lemma strip_id:
  assumes "b \<noteq> []" and "\<not> is_space (hd b)" and "\<not> is_space (last b)"
  shows "strip b = b"
proof -
  have 1: "dropWhile is_space b = b"
    using assms by (simp add: dropWhile_hd)
  have 2: "dropWhile is_space (rev b) = rev b"
    using assms by (simp add: dropWhile_hd hd_rev)
  show ?thesis by (simp add: strip_def 1 2)
qed

lemma digit_groups_all: "ds \<noteq> [] \<Longrightarrow> list_all is_digit ds \<Longrightarrow> digit_groups ds"
  by (induction ds rule: digit_groups.induct) (auto dest: digit_not_sign)

lemma filter_digits: "list_all is_digit ds \<Longrightarrow> filter (\<lambda>c. c \<noteq> CHR ''_'') ds = ds"
  by (induction ds) (auto dest: digit_not_sign)

lemma hd_digits: "is_digit (hd (digits n))"
  using digits_all_digit [of n] digits_not_Nil [of n] by (cases "digits n") simp_all

lemma last_digits: "is_digit (last (digits n))"
  using digits_all_digit [of n] digits_not_Nil [of n]
  by (simp add: list_all_iff)

lemma strip_int_repr: "strip (int_repr i) = int_repr i"
proof (rule strip_id)
  show "int_repr i \<noteq> []" by (simp add: int_repr_def digits_not_Nil)
  show "\<not> is_space (hd (int_repr i))"
    by (simp add: int_repr_def minus_not_space digit_not_space hd_digits)
  show "\<not> is_space (last (int_repr i))"
    by (simp add: int_repr_def digits_not_Nil digit_not_space last_digits)
qed

lemma int_of_bytes_int_repr:
  assumes "length (digits (nat \<bar>i\<bar>)) \<le> int_max_str_digits"
  shows "int_of_bytes (int_repr i) = Inr i"
proof (cases "i < 0")
  case True
  then have n: "nat \<bar>i\<bar> = nat (- i)" by simp
  have "int_of_bytes (int_repr i) = Inr (- 1 * int (digits_value (digits (nat (- i)))))"
    unfolding int_of_bytes_def strip_int_repr
    using True assms [unfolded n]
    by (simp add: int_repr_def Let_def digit_groups_all digits_not_Nil digits_all_digit filter_digits)
  with True show ?thesis by (simp add: digits_value_digits)
next
  case False
  then have n: "nat \<bar>i\<bar> = nat i" by simp
  from hd_digits [of "nat i"] have "hd (digits (nat i)) \<noteq> CHR ''-'' \<and> hd (digits (nat i)) \<noteq> CHR ''+''"
    by (auto dest: digit_not_sign)
  then have "int_of_bytes (int_repr i) = Inr (int (digits_value (digits (nat i))))"
    unfolding int_of_bytes_def strip_int_repr
    using False assms [unfolded n]
    by (simp add: int_repr_def Let_def digit_groups_all digits_not_Nil digits_all_digit filter_digits)
  with False show ?thesis by (simp add: digits_value_digits)
qed

lemma int_of_bytes_too_long:
  assumes "int_max_str_digits < length (digits (nat \<bar>i\<bar>))"
  shows "int_of_bytes (int_repr i) = Inl ValueError"
proof (cases "i < 0")
  case True
  then have n: "nat \<bar>i\<bar> = nat (- i)" by simp
  show ?thesis
    unfolding int_of_bytes_def strip_int_repr
    using True assms [unfolded n]
    by (simp add: int_repr_def Let_def digits_all_digit filter_digits)
next
  case False
  then have n: "nat \<bar>i\<bar> = nat i" by simp
  from hd_digits [of "nat i"] have "hd (digits (nat i)) \<noteq> CHR ''-'' \<and> hd (digits (nat i)) \<noteq> CHR ''+''"
    by (auto dest: digit_not_sign)
  then show ?thesis
    unfolding int_of_bytes_def strip_int_repr
    using False assms [unfolded n]
    by (simp add: int_repr_def Let_def digits_all_digit filter_digits)
qed

lemma length_digits_le: "0 < k \<Longrightarrow> n < 10 ^ k \<Longrightarrow> length (digits n) \<le> k"
proof (induction n arbitrary: k rule: digits.induct)
  case (1 n)
  show ?case
  proof (cases "n < 10")
    case True
    with 1(2) show ?thesis by (subst digits.simps) simp
  next
    case False
    with 1(3) have k: "1 < k" by (cases "k = 1") (use 1(2) in auto)
    then obtain j where j: "k = Suc j" "0 < j" by (cases k) auto
    with 1(3) have "n div 10 < 10 ^ j" by (simp add: less_mult_imp_div_less mult.commute)
    with 1(1) [OF False j(2)] have "length (digits (n div 10)) \<le> j" by simp
    with False j show ?thesis by (subst digits.simps) simp
  qed
qed

lemma length_digits_gt: "10 ^ k \<le> n \<Longrightarrow> k < length (digits n)"
proof (induction n arbitrary: k rule: digits.induct)
  case (1 n)
  show ?case
  proof (cases "n < 10")
    case True
    have "k = 0"
    proof (rule ccontr)
      assume "k \<noteq> 0"
      then have "(10 :: nat) ^ 1 \<le> 10 ^ k" by (intro power_increasing) auto
      with True 1(2) show False by simp
    qed
    then show ?thesis using True by (subst digits.simps) simp
  next
    case False
    show ?thesis
    proof (cases k)
      case 0
      then show ?thesis using digits_not_Nil [of n] by (cases "digits n") simp_all
    next
      case (Suc j)
      with 1(2) have "10 ^ j \<le> n div 10" by (simp add: less_eq_div_iff_mult_less_eq mult.commute)
      with 1(1) [OF False] have "j < length (digits (n div 10))" by simp
      with False Suc show ?thesis by (subst digits.simps) simp
    qed
  qed
qed

lemma py_int_repr_small: "\<bar>i\<bar> < 10 ^ 18 \<Longrightarrow> py_int_repr i = Inr (int_repr i)"
proof -
  assume "\<bar>i\<bar> < 10 ^ 18"
  then have "nat \<bar>i\<bar> < 10 ^ 18" by (simp add: nat_less_iff)
  then have "length (digits (nat \<bar>i\<bar>)) \<le> 18" by (intro length_digits_le) simp_all
  then show ?thesis by (simp add: py_int_repr_def int_max_str_digits_def)
qed

lemma py_int_repr_huge: "10 ^ int_max_str_digits \<le> \<bar>i\<bar> \<Longrightarrow> py_int_repr i = Inl ValueError"
proof -
  assume "10 ^ int_max_str_digits \<le> \<bar>i\<bar>"
  then have "(10 :: nat) ^ int_max_str_digits \<le> nat \<bar>i\<bar>" by (simp add: le_nat_iff)
  then have "int_max_str_digits < length (digits (nat \<bar>i\<bar>))" by (rule length_digits_gt)
  then show ?thesis by (simp add: py_int_repr_def)
qed

lemma py_int_repr_cases:
  "py_int_repr i = Inr t \<Longrightarrow> t = int_repr i \<and> length (digits (nat \<bar>i\<bar>)) \<le> int_max_str_digits"
  by (auto simp: py_int_repr_def split: if_splits)





lemma string2ll_int_repr:
  "- (2 ^ 63) \<le> i \<Longrightarrow> i < 2 ^ 63 \<Longrightarrow> string2ll (int_repr i) = Some i"
proof (cases "i < 0")
  case True
  assume "- (2 ^ 63) \<le> i" "i < 2 ^ 63"
  with True show ?thesis
    unfolding string2ll_def
    by (simp add: int_repr_def Let_def digits_not_Nil digits_all_digit digits_value_digits)
next
  case False
  assume r: "- (2 ^ 63) \<le> i" "i < 2 ^ 63"
  from hd_digits [of "nat i"] have "hd (digits (nat i)) \<noteq> CHR ''-''"
    by (auto dest: digit_not_sign)
  with False r show ?thesis
    unfolding string2ll_def
    by (simp add: int_repr_def Let_def digits_not_Nil digits_all_digit digits_value_digits)
qed

lemma string2ll_range: "string2ll b = Some v \<Longrightarrow> - (2 ^ 63) \<le> v \<and> v < 2 ^ 63 \<and> int_repr v = b"
  by (auto simp: string2ll_def Let_def split: if_splits)


section \<open>Facts about the store commands\<close>

lemma redis_incr_Some:
  "counter_of s key = Some k \<Longrightarrow>
   redis_incr key s =
     (if k = 2 ^ 63 - 1 then (Inl ResponseError, s)
      else (Inr (k + 1), s(key \<mapsto> RStr (int_repr (k + 1)))))"
  by (auto simp: counter_of_def redis_incr_def split: option.splits rval.splits)

lemma redis_incr_None:
  "counter_of s key = None \<Longrightarrow> redis_incr key s = (Inl ResponseError, s)"
  by (auto simp: counter_of_def redis_incr_def split: option.splits rval.splits)

lemma redis_rpush_Some:
  "log_of s key = Some xs \<Longrightarrow> encode rt v = Inr b \<Longrightarrow>
   redis_rpush rt key v s = (Inr (Suc (length xs)), s(key \<mapsto> RList (xs @ [b])))"
  by (auto simp: log_of_def redis_rpush_def split: option.splits rval.splits)

lemma redis_rpush_None:
  "log_of s key = None \<Longrightarrow> encode rt v = Inr b \<Longrightarrow>
   redis_rpush rt key v s = (Inl ResponseError, s)"
  by (auto simp: log_of_def redis_rpush_def split: option.splits rval.splits)

lemma redis_rpush_refused:
  "encode rt v = Inl e \<Longrightarrow> redis_rpush rt key v s = (Inl e, s)"
  by (simp add: redis_rpush_def)

lemma redis_lrange_all:
  "redis_lrange key 0 (- 1) s =
     (case log_of s key of None \<Rightarrow> (Inl ResponseError, s) | Some xs \<Rightarrow> (Inr xs, s))"
  by (auto simp: log_of_def redis_lrange_def Let_def split: option.splits rval.splits)

lemma counter_of_other: "key' \<noteq> key \<Longrightarrow> counter_of (s(key' \<mapsto> v)) key = counter_of s key"
  by (simp add: counter_of_def)

lemma log_of_other: "key' \<noteq> key \<Longrightarrow> log_of (s(key' \<mapsto> v)) key = log_of s key"
  by (simp add: log_of_def)

lemma counter_of_same:
  "- (2 ^ 63) \<le> k \<Longrightarrow> k < 2 ^ 63 \<Longrightarrow> counter_of (s(key \<mapsto> RStr (int_repr k))) key = Some k"
  by (simp add: counter_of_def string2ll_int_repr)

lemma log_of_same: "log_of (s(key \<mapsto> RList xs)) key = Some xs"
  by (simp add: log_of_def)

lemma counter_of_range: "counter_of s key = Some k \<Longrightarrow> - (2 ^ 63) \<le> k \<and> k < 2 ^ 63"
  by (auto simp: counter_of_def dest: string2ll_range split: option.splits rval.splits)

lemma recognized_True: "recognized self = Inr True \<longleftrightarrow> is_Cache self \<and> redis_attr self = RedisClient"
  by (auto simp: recognized_def split: attr.splits)

lemma log_keys_differ: "name @ '':inputs'' \<noteq> name @ '':outputs''"
  by simp


section \<open>Facts about the decorators and the body of store\<close>

lemma count_calls_recognized:
  assumes "recognized self = Inr True" and "counter_of s (qualname m) = Some k"
    and "k < 2 ^ 63 - 1"
  shows "call (count_calls m) self args kw s =
           call m self args kw (s(qualname m \<mapsto> RStr (int_repr (k + 1))))"
  using assms by (simp add: count_calls_def redis_incr_Some)

lemma call_history_recognized:
  assumes "recognized self = Inr True" and "call m self args kw s = (Inr rv, s1)"
    and "py_str_tuple rt args = Inr t"
    and "log_of s1 (qualname m @ '':inputs'') = Some ins"
    and "log_of s1 (qualname m @ '':outputs'') = Some outs"
    and "encode rt rv = Inr b"
  shows "call (call_history rt m) self args kw s =
           (Inr rv, s1(qualname m @ '':inputs'' \<mapsto> RList (ins @ [t]),
                       qualname m @ '':outputs'' \<mapsto> RList (outs @ [b])))"
proof -
  have 1: "redis_rpush rt (qualname m @ '':inputs'') (PStr t) s1 =
             (Inr (Suc (length ins)), s1(qualname m @ '':inputs'' \<mapsto> RList (ins @ [t])))"
    using assms(4) by (simp add: redis_rpush_Some)
  have 2: "log_of (s1(qualname m @ '':inputs'' \<mapsto> RList (ins @ [t])))
             (qualname m @ '':outputs'') = Some outs"
    using assms(5) by (simp add: log_of_other)
  show ?thesis
    using assms(1,2,3,6) 1 redis_rpush_Some [OF 2 assms(6)]
    by (simp add: call_history_def Let_def)
qed

lemma call_history_output_refused:
  assumes "recognized self = Inr True" and "call m self args kw s = (Inr rv, s1)"
    and "py_str_tuple rt args = Inr t"
    and "log_of s1 (qualname m @ '':inputs'') = Some ins"
    and "encode rt rv = Inl e"
  shows "call (call_history rt m) self args kw s =
           (Inl e, s1(qualname m @ '':inputs'' \<mapsto> RList (ins @ [t])))"
proof -
  have 1: "redis_rpush rt (qualname m @ '':inputs'') (PStr t) s1 =
             (Inr (Suc (length ins)), s1(qualname m @ '':inputs'' \<mapsto> RList (ins @ [t])))"
    using assms(4) by (simp add: redis_rpush_Some)
  show ?thesis
    using assms(1,2,3,5) 1 by (simp add: call_history_def Let_def redis_rpush_refused)
qed

lemma call_history_args_refused:
  assumes "recognized self = Inr True" and "call m self args kw s = (Inr rv, s1)"
    and "py_str_tuple rt args = Inl e"
  shows "call (call_history rt m) self args kw s = (Inl e, s1)"
  using assms by (simp add: call_history_def Let_def)

lemma call_history_inputs_refused:
  assumes "recognized self = Inr True" and "call m self args kw s = (Inr rv, s1)"
    and "py_str_tuple rt args = Inr t"
    and "log_of s1 (qualname m @ '':inputs'') = None"
  shows "call (call_history rt m) self args kw s = (Inl ResponseError, s1)"
  using assms by (simp add: call_history_def Let_def redis_rpush_None)

lemma call_history_failed:
  "call m self args kw s = (Inl e, s1) \<Longrightarrow> call (call_history rt m) self args kw s = (Inl e, s1)"
  by (simp add: call_history_def Let_def)

lemma store_raw_ok:
  assumes "redis_attr self = RedisClient" and "bind_data args kw = Inr data"
    and "encode rt data = Inr b"
  shows "call (store_raw rt u) self args kw s = (Inr (PStr (uuid_str u)), s(uuid_str u \<mapsto> RStr b))"
  using assms by (simp add: store_raw_def redis_set_def Let_def)

lemma store_raw_cases:
  assumes "call (store_raw rt u) self args kw s = (r, s1)"
  shows "(\<exists>e. r = Inl e \<and> s1 = s)
     \<or> (\<exists>data b. r = Inr (PStr (uuid_str u)) \<and> bind_data args kw = Inr data
          \<and> encode rt data = Inr b \<and> s1 = s(uuid_str u \<mapsto> RStr b))"
proof (cases "bind_data args kw")
  case (Inl e)
  with assms have "r = Inl e \<and> s1 = s" by (simp add: store_raw_def)
  then show ?thesis by blast
next
  case (Inr data)
  show ?thesis
  proof (cases "redis_attr self = RedisClient")
    case False
    with Inr assms have "r = Inl AttributeError \<and> s1 = s"
      by (cases "redis_attr self") (simp_all add: store_raw_def Let_def)
    then show ?thesis by blast
  next
    case True
    show ?thesis
    proof (cases "encode rt data")
      case (Inl e)
      with True Inr assms have "r = Inl e \<and> s1 = s"
        by (simp add: store_raw_def Let_def redis_set_def)
      then show ?thesis by blast
    next
      case enc: (Inr b)
      with True Inr assms have "r = Inr (PStr (uuid_str u)) \<and> s1 = s(uuid_str u \<mapsto> RStr b)"
        by (auto simp: store_raw_def Let_def redis_set_def)
      with Inr enc show ?thesis by blast
    qed
  qed
qed

lemma qualname_simps:
  "qualname (store_raw rt u) = ''Cache.store''"
  "qualname (call_history rt m) = qualname m"
  "qualname (count_calls m) = qualname m"
  by (simp_all add: store_raw_def call_history_def count_calls_def)

lemma recognized_a_cache: "recognized a_cache = Inr True"
  by (simp add: recognized_def a_cache_def)

lemma counter_of_empty: "counter_of empty_db name = Some 0"
  by (simp add: counter_of_def empty_db_def)

lemma log_of_empty: "log_of empty_db name = Some []"
  by (simp add: log_of_def empty_db_def)

lemma int_repr_1: "int_repr 1 = ''1''"
  by code_simp

lemma snd_rpush_other:
  "key' \<noteq> key \<Longrightarrow> snd (redis_rpush rt key v s) key' = s key'"
  by (simp add: redis_rpush_def split: sum.splits option.splits rval.splits)

lemma snd_store_raw_other:
  "key' \<noteq> uuid_str u \<Longrightarrow> snd (call (store_raw rt u) self args kw s) key' = s key'"
proof -
  obtain r s1 where c: "call (store_raw rt u) self args kw s = (r, s1)"
    by (cases "call (store_raw rt u) self args kw s")
  assume "key' \<noteq> uuid_str u"
  with store_raw_cases [OF c] have "s1 key' = s key'" by auto
  with c show ?thesis by simp
qed

lemma snd_call_history_other:
  assumes "key' \<noteq> qualname m @ '':inputs''" and "key' \<noteq> qualname m @ '':outputs''"
  shows "snd (call (call_history rt m) self args kw s) key' = snd (call m self args kw s) key'"
proof -
  obtain r s1 where c: "call m self args kw s = (r, s1)"
    by (cases "call m self args kw s")
  show ?thesis
  proof (cases r)
    case (Inl e)
    with c show ?thesis by (simp add: call_history_def Let_def)
  next
    case (Inr rv)
    show ?thesis
    proof (cases "py_str_tuple rt args")
      case tl: (Inl e)
      with c Inr show ?thesis
        by (simp add: call_history_def Let_def split: sum.splits bool.splits)
    next
      case tr: (Inr t)
      obtain r2 s2 where p1: "redis_rpush rt (qualname m @ '':inputs'') (PStr t) s1 = (r2, s2)"
        by (cases "redis_rpush rt (qualname m @ '':inputs'') (PStr t) s1")
      obtain r3 s3 where p2: "redis_rpush rt (qualname m @ '':outputs'') rv s2 = (r3, s3)"
        by (cases "redis_rpush rt (qualname m @ '':outputs'') rv s2")
      from snd_rpush_other [OF assms(1), of rt "PStr t" s1] p1
      have e2: "s2 key' = s1 key'" by simp
      from snd_rpush_other [OF assms(2), of rt rv s2] p2
      have e3: "s3 key' = s2 key'" by simp
      from c Inr tr p1 p2 e2 e3 show ?thesis
        by (simp add: call_history_def Let_def split: sum.splits bool.splits)
    qed
  qed
qed

lemma history_store_keeps_counter:
  "snd (call (call_history rt (store_raw rt u)) self args kw s) ''Cache.store'' = s ''Cache.store''"
proof -
  have "snd (call (call_history rt (store_raw rt u)) self args kw s) ''Cache.store''
          = snd (call (store_raw rt u) self args kw s) ''Cache.store''"
    by (rule snd_call_history_other) (simp_all add: qualname_simps)
  also have "\<dots> = s ''Cache.store''"
    using uuid_str_not_name(1) [of u] by (simp add: snd_store_raw_other)
  finally show ?thesis .
qed


section \<open>Facts about store and runs of it\<close>




lemma py_str_tuple_single_refused:
  "py_repr rt v = Inl e \<Longrightarrow> py_str_tuple rt [v] = Inl e"
  by (simp add: py_str_tuple_def)

lemma Cache_store_returns:
  assumes "recognized self = Inr True"
    and "counter_of s ''Cache.store'' = Some k" and "k < 2 ^ 63 - 1"
    and "log_of s ''Cache.store:inputs'' = Some ins"
    and "log_of s ''Cache.store:outputs'' = Some outs"
    and "bind_data args kw = Inr data" and "encode rt data = Inr b"
    and "py_str_tuple rt args = Inr t"
  shows "call (Cache_store rt u) self args kw s =
           (Inr (PStr (uuid_str u)),
            s(''Cache.store'' \<mapsto> RStr (int_repr (k + 1)),
              uuid_str u \<mapsto> RStr b,
              ''Cache.store:inputs'' \<mapsto> RList (ins @ [t]),
              ''Cache.store:outputs'' \<mapsto> RList (outs @ [uuid_str u])))"
proof -
  let ?m = "store_raw rt u"
  let ?s1 = "s(''Cache.store'' \<mapsto> RStr (int_repr (k + 1)))"
  let ?s2 = "?s1(uuid_str u \<mapsto> RStr b)"
  have q: "qualname ?m = ''Cache.store''" by (simp add: qualname_simps)
  have u: "uuid_str u \<noteq> ''Cache.store:inputs''" "uuid_str u \<noteq> ''Cache.store:outputs''"
    using length_uuid_str [of u] by auto
  have a: "redis_attr self = RedisClient"
    using assms(1) by (simp add: recognized_True)
  have 1: "call (Cache_store rt u) self args kw s = call (call_history rt ?m) self args kw ?s1"
    using count_calls_recognized [OF assms(1), of s "call_history rt ?m" k args kw] assms(2,3)
    by (simp add: Cache_store_def qualname_simps)
  have 2: "call ?m self args kw ?s1 = (Inr (PStr (uuid_str u)), ?s2)"
    by (rule store_raw_ok [OF a assms(6,7)])
  have 3: "log_of ?s2 (qualname ?m @ '':inputs'') = Some ins"
    using u assms(4) by (simp add: q log_of_other)
  have 4: "log_of ?s2 (qualname ?m @ '':outputs'') = Some outs"
    using u assms(5) by (simp add: q log_of_other)
  have 5: "encode rt (PStr (uuid_str u)) = Inr (uuid_str u)" by simp
  show ?thesis
    unfolding 1 using call_history_recognized [OF assms(1) 2 assms(8) 3 4 5] by (simp add: q)
qed

lemma Cache_store_body_refused:
  assumes "recognized self = Inr True"
    and "counter_of s ''Cache.store'' = Some k" and "k < 2 ^ 63 - 1"
    and "bind_data args kw = Inr data" and "encode rt data = Inl e"
  shows "call (Cache_store rt u) self args kw s =
           (Inl e, s(''Cache.store'' \<mapsto> RStr (int_repr (k + 1))))"
proof -
  let ?m = "store_raw rt u"
  let ?s1 = "s(''Cache.store'' \<mapsto> RStr (int_repr (k + 1)))"
  have a: "redis_attr self = RedisClient"
    using assms(1) by (simp add: recognized_True)
  have 1: "call (Cache_store rt u) self args kw s = call (call_history rt ?m) self args kw ?s1"
    using count_calls_recognized [OF assms(1), of s "call_history rt ?m" k args kw] assms(2,3)
    by (simp add: Cache_store_def qualname_simps)
  have 2: "call ?m self args kw ?s1 = (Inl e, ?s1)"
    using a assms(4,5) by (simp add: store_raw_def redis_set_def Let_def)
  show ?thesis unfolding 1 by (rule call_history_failed [OF 2])
qed

lemma Cache_store_success:
  assumes "recognized self = Inr True"
    and "counter_of s ''Cache.store'' = Some k"
    and "log_of s ''Cache.store:inputs'' = Some ins"
    and "log_of s ''Cache.store:outputs'' = Some outs"
    and "call (Cache_store rt u) self args kw s = (Inr v, s')"
  shows "v = PStr (uuid_str u) \<and> counter_of s' ''Cache.store'' = Some (k + 1)
       \<and> (\<exists>t. py_str_tuple rt args = Inr t
              \<and> log_of s' ''Cache.store:inputs'' = Some (ins @ [t]))
       \<and> log_of s' ''Cache.store:outputs'' = Some (outs @ [uuid_str u])"
proof -
  let ?m = "store_raw rt u"
  let ?s1 = "s(''Cache.store'' \<mapsto> RStr (int_repr (k + 1)))"
  have u: "uuid_str u \<noteq> ''Cache.store''" "uuid_str u \<noteq> ''Cache.store:inputs''"
    "uuid_str u \<noteq> ''Cache.store:outputs''"
    using length_uuid_str [of u] by auto
  have rng: "- (2 ^ 63) \<le> k \<and> k < 2 ^ 63" by (rule counter_of_range [OF assms(2)])
  have k: "k < 2 ^ 63 - 1"
  proof (rule ccontr)
    assume "\<not> k < 2 ^ 63 - 1"
    with rng have "k = 2 ^ 63 - 1" by simp
    with assms(1,2) have "call (Cache_store rt u) self args kw s = (Inl ResponseError, s)"
      by (simp add: Cache_store_def count_calls_def redis_incr_Some qualname_simps)
    with assms(5) show False by simp
  qed
  have 1: "call (Cache_store rt u) self args kw s = call (call_history rt ?m) self args kw ?s1"
    using count_calls_recognized [OF assms(1), of s "call_history rt ?m" k args kw] assms(2) k
    by (simp add: Cache_store_def qualname_simps)
  obtain r s2 where c: "call ?m self args kw ?s1 = (r, s2)"
    by (cases "call ?m self args kw ?s1")
  from store_raw_cases [OF c] show ?thesis
  proof (elim disjE exE conjE)
    fix e
    assume "r = Inl e"
    with c have "call (call_history rt ?m) self args kw ?s1 = (Inl e, s2)"
      by (simp add: call_history_failed)
    with 1 assms(5) show ?thesis by simp
  next
    fix data b
    assume d: "bind_data args kw = Inr data" "encode rt data = Inr b"
      and r: "r = Inr (PStr (uuid_str u))"
    show ?thesis
    proof (cases "py_str_tuple rt args")
      case (Inl e)
      from call_history_args_refused [OF assms(1) c [unfolded r] Inl] 1 assms(5)
      show ?thesis by simp
    next
      case (Inr t)
      from Cache_store_returns [OF assms(1,2) k assms(3,4) d Inr, of u] assms(5)
      have v: "v = PStr (uuid_str u)"
        and s': "s' = s(''Cache.store'' \<mapsto> RStr (int_repr (k + 1)),
                uuid_str u \<mapsto> RStr b,
                ''Cache.store:inputs'' \<mapsto> RList (ins @ [t]),
                ''Cache.store:outputs'' \<mapsto> RList (outs @ [uuid_str u]))"
        by simp_all
      have c1: "counter_of s' ''Cache.store'' = Some (k + 1)"
        unfolding s' using u rng k by (simp add: counter_of_other counter_of_same)
      have l1: "log_of s' ''Cache.store:inputs'' = Some (ins @ [t])"
        unfolding s' by (simp add: log_of_other log_of_same)
      have l2: "log_of s' ''Cache.store:outputs'' = Some (outs @ [uuid_str u])"
        unfolding s' by (simp add: log_of_same)
      from v c1 l1 l2 Inr show ?thesis by simp
    qed
  qed
qed

lemma store_calls_invariant:
  assumes "recognized self = Inr True"
  shows "store_calls rt self cs s = (rs, s') \<Longrightarrow> \<forall>r\<in>set rs. \<exists>v. r = Inr v \<Longrightarrow>
         counter_of s ''Cache.store'' = Some k \<Longrightarrow>
         log_of s ''Cache.store:inputs'' = Some ins \<Longrightarrow>
         log_of s ''Cache.store:outputs'' = Some outs \<Longrightarrow>
         rs = map (\<lambda>(args, kw, u). Inr (PStr (uuid_str u))) cs
         \<and> counter_of s' ''Cache.store'' = Some (k + int (length cs))
         \<and> (\<exists>ts. map Inr ts = map (\<lambda>(args, kw, u). py_str_tuple rt args) cs
                \<and> log_of s' ''Cache.store:inputs'' = Some (ins @ ts))
         \<and> log_of s' ''Cache.store:outputs'' = Some (outs @ map (\<lambda>(args, kw, u). uuid_str u) cs)"
proof (induction cs arbitrary: s s' rs k ins outs)
  case Nil
  then show ?case by simp
next
  case (Cons c cs)
  obtain args kw u where c: "c = (args, kw, u)" by (cases c)
  obtain r s1 where r: "call (Cache_store rt u) self args kw s = (r, s1)"
    by (cases "call (Cache_store rt u) self args kw s")
  obtain rs1 s2 where t: "store_calls rt self cs s1 = (rs1, s2)"
    by (cases "store_calls rt self cs s1")
  from Cons.prems(1) c r t have rs: "rs = r # rs1" and s': "s' = s2" by simp_all
  from Cons.prems(2) rs obtain v where v: "r = Inr v" and ok: "\<forall>r\<in>set rs1. \<exists>v. r = Inr v"
    by auto
  from Cache_store_success [OF assms Cons.prems(3,4,5) r [unfolded v]]
  obtain t0 where v': "v = PStr (uuid_str u)" and k1: "counter_of s1 ''Cache.store'' = Some (k + 1)"
    and t0: "py_str_tuple rt args = Inr t0"
    and i1: "log_of s1 ''Cache.store:inputs'' = Some (ins @ [t0])"
    and o1: "log_of s1 ''Cache.store:outputs'' = Some (outs @ [uuid_str u])"
    by blast
  from Cons.IH [OF t ok k1 i1 o1]
  obtain ts where ih: "rs1 = map (\<lambda>(args, kw, u). Inr (PStr (uuid_str u))) cs"
    "counter_of s2 ''Cache.store'' = Some (k + 1 + int (length cs))"
    "map Inr ts = map (\<lambda>(args, kw, u). py_str_tuple rt args) cs"
    "log_of s2 ''Cache.store:inputs'' = Some ((ins @ [t0]) @ ts)"
    "log_of s2 ''Cache.store:outputs'' = Some ((outs @ [uuid_str u]) @ map (\<lambda>(args, kw, u). uuid_str u) cs)"
    by blast
  have "map Inr (t0 # ts) = map (\<lambda>(args, kw, u). py_str_tuple rt args) (c # cs)"
    using ih(3) t0 c by simp
  moreover have "log_of s' ''Cache.store:inputs'' = Some (ins @ (t0 # ts))"
    using ih(4) s' by simp
  ultimately have ex: "\<exists>ts. map Inr ts = map (\<lambda>(args, kw, u). py_str_tuple rt args) (c # cs)
                \<and> log_of s' ''Cache.store:inputs'' = Some (ins @ ts)"
    by blast
  have A: "rs = map (\<lambda>(args, kw, u). Inr (PStr (uuid_str u))) (c # cs)"
    using ih(1) rs v v' c by simp
  have B: "counter_of s' ''Cache.store'' = Some (k + int (length (c # cs)))"
    using ih(2) s' by simp
  have C: "log_of s' ''Cache.store:outputs'' =
             Some (outs @ map (\<lambda>(args, kw, u). uuid_str u) (c # cs))"
    using ih(5) s' c by simp
  from A B ex C show ?case by blast
qed


section \<open>Facts about retrieval and replay\<close>


lemma Cache_get_raw_values:
  "Cache_get self key None s = (Inr v, s') \<Longrightarrow> v = PNone \<or> (\<exists>b. v = PBytes b)"
  by (auto simp: Cache_get_def redis_get_def split: attr.splits option.splits rval.splits)

lemma replay_loop_valid:
  "\<forall>p\<in>set ps. valid_utf8 (fst p) \<and> valid_utf8 (snd p) \<Longrightarrow>
   replay_loop name ps = (Inr (), map (\<lambda>(i, ou). name @ ''(*'' @ i @ '') -> '' @ ou) ps)"
  by (induction ps) (auto simp: utf8_decode_def)

lemma replay_state: "snd (snd (replay m s)) = s"
  by (simp add: replay_def redis_lrange_all Let_def split: option.splits prod.splits sum.splits)

lemma replay_loop_general:
  "replay_loop name ps =
     ((if list_all (\<lambda>p. valid_utf8 (fst p) \<and> valid_utf8 (snd p)) ps then Inr ()
       else Inl UnicodeDecodeError),
      map (\<lambda>(i, ou). name @ ''(*'' @ i @ '') -> '' @ ou)
        (takeWhile (\<lambda>p. valid_utf8 (fst p) \<and> valid_utf8 (snd p)) ps))"
  by (induction ps) (auto simp: utf8_decode_def)

lemma replay_wrong_type:
  "log_of s (qualname m @ '':inputs'') = None \<or> log_of s (qualname m @ '':outputs'') = None \<Longrightarrow>
   replay m s = (Inl ResponseError, [], s)"
  by (auto simp: replay_def redis_lrange_all Let_def split: option.splits)

lemma replay_on_logs:
  assumes "log_of s (qualname m @ '':inputs'') = Some ins"
    and "log_of s (qualname m @ '':outputs'') = Some outs"
  shows "replay m s =
     ((if list_all (\<lambda>p. valid_utf8 (fst p) \<and> valid_utf8 (snd p)) (zip ins outs) then Inr ()
       else Inl UnicodeDecodeError),
      (qualname m @ '' was called '' @ int_repr (int (length ins)) @ '' times:'')
        # map (\<lambda>(i, ou). qualname m @ ''(*'' @ i @ '') -> '' @ ou)
            (takeWhile (\<lambda>p. valid_utf8 (fst p) \<and> valid_utf8 (snd p)) (zip ins outs)),
      s)"
  using assms by (simp add: replay_def redis_lrange_all Let_def replay_loop_general)

lemma takeWhile_all: "list_all P xs \<Longrightarrow> takeWhile P xs = xs"
  by (induction xs) simp_all

lemma in_dropWhile: "x \<in> set xs \<Longrightarrow> \<not> P x \<Longrightarrow> x \<in> set (dropWhile P xs)"
  by (induction xs) auto

lemma in_strip: "c \<in> set b \<Longrightarrow> \<not> is_space c \<Longrightarrow> c \<in> set (strip b)"
  by (simp add: strip_def in_dropWhile)

lemma digit_groups_chars: "digit_groups r \<Longrightarrow> c \<in> set r \<Longrightarrow> is_digit c \<or> c = CHR ''_''"
  by (induction r rule: digit_groups.induct) (auto split: if_splits)

lemma int_of_bytes_bad_char:
  assumes "c \<in> set b" and "\<not> is_digit c" and "\<not> is_space c"
    and "c \<noteq> CHR ''_''" and "c \<noteq> CHR ''-''" and "c \<noteq> CHR ''+''"
  shows "int_of_bytes b = Inl ValueError"
proof -
  let ?t = "strip b"
  let ?r = "if ?t \<noteq> [] \<and> (hd ?t = CHR ''-'' \<or> hd ?t = CHR ''+'') then tl ?t else ?t"
  have t: "c \<in> set ?t" using assms(1,3) by (rule in_strip)
  have "c \<in> set ?r"
  proof (cases "?t \<noteq> [] \<and> (hd ?t = CHR ''-'' \<or> hd ?t = CHR ''+'')")
    case True
    then have r: "?r = tl ?t" by (rule if_P)
    from True have "?t \<noteq> []" and "c \<noteq> hd ?t" using assms(5,6) by auto
    with t have "c \<in> set (tl ?t)" by (cases ?t) auto
    then show ?thesis by (simp only: r)
  next
    case False
    then have r: "?r = ?t" by (rule if_not_P)
    from t show ?thesis by (simp only: r)
  qed
  with assms(2,4) have "\<not> digit_groups ?r" by (auto dest: digit_groups_chars)
  then show ?thesis by (simp add: int_of_bytes_def Let_def)
qed





section \<open>The claims of the specification\<close>

subsection \<open>Construction\<close>

text \<open>
  C9. Constructing a \<open>Cache\<close> clears the whole database, whatever it held: afterwards
  every key reads as absent through \<open>get\<close>, \<open>get_str\<close> and \<open>get_int\<close>, every
  counter reads as zero and every history log is empty.
\<close>

theorem Cache_init_clears:
  "fst (Cache_init s) = Inr a_cache
   \<and> (\<forall>key. Cache_get a_cache key None (snd (Cache_init s)) = (Inr PNone, snd (Cache_init s)))
   \<and> (\<forall>key. Cache_get_str a_cache key (snd (Cache_init s)) = (Inr PNone, snd (Cache_init s)))
   \<and> (\<forall>key. Cache_get_int a_cache key (snd (Cache_init s)) = (Inr PNone, snd (Cache_init s)))
   \<and> (\<forall>name. counter_of (snd (Cache_init s)) name = Some 0)
   \<and> (\<forall>name. log_of (snd (Cache_init s)) name = Some [])"
  by (simp add: Cache_init_def redis_flushdb_def a_cache_def Cache_get_def Cache_get_str_def
      Cache_get_int_def redis_get_def counter_of_def log_of_def)

theorem Cache_init_clears_witness:
  "Cache_get a_cache ''k'' None (Map.empty(''k'' \<mapsto> RStr ''v'')) = (Inr (PBytes ''v''), Map.empty(''k'' \<mapsto> RStr ''v''))
   \<and> Cache_get a_cache ''k'' None (snd (Cache_init (Map.empty(''k'' \<mapsto> RStr ''v''))))
       = (Inr PNone, snd (Cache_init (Map.empty(''k'' \<mapsto> RStr ''v''))))
   \<and> counter_of (snd (Cache_init (Map.empty(''Cache.store'' \<mapsto> RStr ''2'')))) ''Cache.store'' = Some 0"
  using Cache_init_clears [of "Map.empty(''k'' \<mapsto> RStr ''v'')"]
    Cache_init_clears [of "Map.empty(''Cache.store'' \<mapsto> RStr ''2'')"]
  by (simp add: Cache_get_def a_cache_def redis_get_def)

subsection \<open>Retrieval\<close>

text \<open>
  C6. For a key that is absent from the database, \<open>get\<close> without a conversion function
  returns \<open>None\<close> and raises nothing, and \<open>get\<close> with a conversion function returns
  whatever that function makes of \<open>None\<close>: \<open>get\<close> itself has no guard.
\<close>

theorem get_absent_key:
  assumes "redis_attr self = RedisClient" and "s key = None"
  shows "Cache_get self key None s = (Inr PNone, s)
         \<and> (\<forall>f. Cache_get self key (Some f) s = (f PNone, s))"
  using assms by (simp add: Cache_get_def redis_get_def)

theorem get_absent_key_witness:
  "redis_attr a_cache = RedisClient \<and> (Map.empty :: redis) ''missing'' = None
   \<and> Cache_get a_cache ''missing'' None Map.empty = (Inr PNone, Map.empty)
   \<and> Cache_get a_cache ''missing'' (Some py_int) Map.empty = (Inl TypeError, Map.empty)
   \<and> Cache_get a_cache ''missing'' (Some bytes_decode) Map.empty = (Inl AttributeError, Map.empty)"
proof -
  have h1: "redis_attr a_cache = RedisClient" by (simp add: a_cache_def)
  have h2: "(Map.empty :: redis) ''missing'' = None" by simp
  show ?thesis using get_absent_key [OF h1 h2] h1 by simp
qed

text \<open>
  C7, as the code has it. When the key is absent, \<open>get_str\<close> and \<open>get_int\<close> return
  \<open>None\<close>, not an exception and not an empty string or zero. When the key holds
  bytes, \<open>get_str\<close> returns the text they encode if they are well-formed UTF-8 and
  raises \<open>UnicodeDecodeError\<close> if not; \<open>get_int\<close> returns \<open>int\<close> of the bytes: the
  integer whose decimal numeral they are when that has at most 4300 digits, and
  \<open>ValueError\<close> when the numeral is longer or when the bytes hold a character that is
  not a digit, a sign, an underscore or ASCII whitespace.
\<close>

theorem typed_get:
  assumes "redis_attr self = RedisClient"
  shows "(s key = None \<longrightarrow>
            Cache_get_str self key s = (Inr PNone, s) \<and> Cache_get_int self key s = (Inr PNone, s))
       \<and> (\<forall>b. s key = Some (RStr b) \<and> valid_utf8 b \<longrightarrow>
            Cache_get_str self key s = (Inr (PStr b), s))
       \<and> (\<forall>b. s key = Some (RStr b) \<and> \<not> valid_utf8 b \<longrightarrow>
            Cache_get_str self key s = (Inl UnicodeDecodeError, s))
       \<and> (\<forall>n. s key = Some (RStr (int_repr n))
              \<and> length (digits (nat \<bar>n\<bar>)) \<le> int_max_str_digits \<longrightarrow>
            Cache_get_int self key s = (Inr (PInt n), s))
       \<and> (\<forall>n. s key = Some (RStr (int_repr n))
              \<and> int_max_str_digits < length (digits (nat \<bar>n\<bar>)) \<longrightarrow>
            Cache_get_int self key s = (Inl ValueError, s))
       \<and> (\<forall>b c. s key = Some (RStr b) \<and> c \<in> set b \<and> \<not> is_digit c \<and> \<not> is_space c
              \<and> c \<noteq> CHR ''_'' \<and> c \<noteq> CHR ''-'' \<and> c \<noteq> CHR ''+'' \<longrightarrow>
            Cache_get_int self key s = (Inl ValueError, s))
       \<and> (\<forall>b. s key = Some (RStr b) \<longrightarrow>
            Cache_get_int self key s =
              ((case int_of_bytes b of Inl e \<Rightarrow> Inl e | Inr n \<Rightarrow> Inr (PInt n)), s))"
proof -
  have g: "\<And>b. s key = Some (RStr b) \<Longrightarrow>
             Cache_get_int self key s =
               ((case int_of_bytes b of Inl e \<Rightarrow> Inl e | Inr n \<Rightarrow> Inr (PInt n)), s)"
    using assms by (simp add: Cache_get_int_def Cache_get_def redis_get_def)
  have 1: "s key = None \<longrightarrow>
            Cache_get_str self key s = (Inr PNone, s) \<and> Cache_get_int self key s = (Inr PNone, s)"
    using assms by (simp add: Cache_get_str_def Cache_get_int_def Cache_get_def redis_get_def)
  have 2: "\<forall>b. s key = Some (RStr b) \<and> valid_utf8 b \<longrightarrow>
            Cache_get_str self key s = (Inr (PStr b), s)"
    using assms by (simp add: Cache_get_str_def Cache_get_def redis_get_def utf8_decode_def)
  have 3: "\<forall>b. s key = Some (RStr b) \<and> \<not> valid_utf8 b \<longrightarrow>
            Cache_get_str self key s = (Inl UnicodeDecodeError, s)"
    using assms by (simp add: Cache_get_str_def Cache_get_def redis_get_def utf8_decode_def)
  have 4: "\<forall>n. s key = Some (RStr (int_repr n))
              \<and> length (digits (nat \<bar>n\<bar>)) \<le> int_max_str_digits \<longrightarrow>
            Cache_get_int self key s = (Inr (PInt n), s)"
    by (auto simp: g int_of_bytes_int_repr)
  have 5: "\<forall>n. s key = Some (RStr (int_repr n))
              \<and> int_max_str_digits < length (digits (nat \<bar>n\<bar>)) \<longrightarrow>
            Cache_get_int self key s = (Inl ValueError, s)"
    by (auto simp: g int_of_bytes_too_long)
  have 6: "\<forall>b c. s key = Some (RStr b) \<and> c \<in> set b \<and> \<not> is_digit c \<and> \<not> is_space c
              \<and> c \<noteq> CHR ''_'' \<and> c \<noteq> CHR ''-'' \<and> c \<noteq> CHR ''+'' \<longrightarrow>
            Cache_get_int self key s = (Inl ValueError, s)"
    by (auto simp: g int_of_bytes_bad_char)
  from 1 2 3 4 5 6 g show ?thesis by blast
qed

text \<open>
  C7, as stated, says that for every value present \<open>get_str\<close> and \<open>get_int\<close> return
  a decoding. After \<open>store(b"\xff")\<close> and \<open>store("abc")\<close> the keys hold the bytes
  \<open>ff\<close> and \<open>abc\<close>: \<open>get_str\<close> of the first raises \<open>UnicodeDecodeError\<close>,
  \<open>get_int\<close> of the second raises \<open>ValueError\<close>.
\<close>

theorem typed_get_raises:
  "Cache_get_str a_cache ''k1'' (empty_db(''k1'' \<mapsto> RStr [CHR 0xFF]))
     = (Inl UnicodeDecodeError, empty_db(''k1'' \<mapsto> RStr [CHR 0xFF]))
   \<and> Cache_get_int a_cache ''k2'' (empty_db(''k2'' \<mapsto> RStr ''abc''))
     = (Inl ValueError, empty_db(''k2'' \<mapsto> RStr ''abc''))"
proof -
  have v: "\<not> valid_utf8 [CHR 0xFF]" by (simp add: utf8_lead_def)
  have i: "int_of_bytes ''abc'' = Inl ValueError"
    by (simp add: int_of_bytes_def strip_def is_space_def Let_def is_digit_def)
  show ?thesis
    using v i
    by (simp add: Cache_get_str_def Cache_get_int_def Cache_get_def redis_get_def a_cache_def
        utf8_decode_def)
qed

theorem typed_get_witness:
  "redis_attr a_cache = RedisClient
   \<and> Cache_get_str a_cache ''k0'' (empty_db(''k1'' \<mapsto> RStr ''hello'', ''k2'' \<mapsto> RStr ''42''))
        = (Inr PNone, empty_db(''k1'' \<mapsto> RStr ''hello'', ''k2'' \<mapsto> RStr ''42''))
   \<and> Cache_get_int a_cache ''k0'' (empty_db(''k1'' \<mapsto> RStr ''hello'', ''k2'' \<mapsto> RStr ''42''))
        = (Inr PNone, empty_db(''k1'' \<mapsto> RStr ''hello'', ''k2'' \<mapsto> RStr ''42''))
   \<and> Cache_get_str a_cache ''k1'' (empty_db(''k1'' \<mapsto> RStr ''hello'', ''k2'' \<mapsto> RStr ''42''))
        = (Inr (PStr ''hello''), empty_db(''k1'' \<mapsto> RStr ''hello'', ''k2'' \<mapsto> RStr ''42''))
   \<and> Cache_get_int a_cache ''k2'' (empty_db(''k1'' \<mapsto> RStr ''hello'', ''k2'' \<mapsto> RStr ''42''))
        = (Inr (PInt 42), empty_db(''k1'' \<mapsto> RStr ''hello'', ''k2'' \<mapsto> RStr ''42''))
   \<and> Cache_get_int a_cache ''k1'' (empty_db(''k1'' \<mapsto> RStr ''hello'', ''k2'' \<mapsto> RStr ''42''))
        = (Inl ValueError, empty_db(''k1'' \<mapsto> RStr ''hello'', ''k2'' \<mapsto> RStr ''42''))"
proof -
  let ?s = "empty_db(''k1'' \<mapsto> RStr ''hello'', ''k2'' \<mapsto> RStr ''42'')"
  have h: "redis_attr a_cache = RedisClient" by (simp add: a_cache_def)
  have v: "valid_utf8 ''hello''" by (simp add: utf8_lead_def)
  have r: "int_repr 42 = ''42''" by code_simp
  have l: "length (digits (nat \<bar>42\<bar>)) \<le> int_max_str_digits"
    using length_digits_le [of 18 "nat \<bar>42\<bar>"] by (simp add: int_max_str_digits_def)
  have k0: "?s ''k0'' = None" by (simp add: empty_db_def)
  have k1: "?s ''k1'' = Some (RStr ''hello'')" by simp
  have k2: "?s ''k2'' = Some (RStr (int_repr 42))" by (simp add: r)
  have bad: "CHR ''h'' \<in> set ''hello'' \<and> \<not> is_digit CHR ''h'' \<and> \<not> is_space CHR ''h''
      \<and> CHR ''h'' \<noteq> CHR ''_'' \<and> CHR ''h'' \<noteq> CHR ''-'' \<and> CHR ''h'' \<noteq> CHR ''+''"
    by (simp add: is_digit_def is_space_def)
  from typed_get [OF h, of ?s "''k0''"] k0
  have a: "Cache_get_str a_cache ''k0'' ?s = (Inr PNone, ?s)"
    "Cache_get_int a_cache ''k0'' ?s = (Inr PNone, ?s)" by blast+
  from typed_get [OF h, of ?s "''k1''"] k1 v
  have b: "Cache_get_str a_cache ''k1'' ?s = (Inr (PStr ''hello''), ?s)" by blast
  from typed_get [OF h, of ?s "''k2''"] k2 l
  have c: "Cache_get_int a_cache ''k2'' ?s = (Inr (PInt 42), ?s)" by blast
  from typed_get [OF h, of ?s "''k1''"] k1 bad
  have d: "Cache_get_int a_cache ''k1'' ?s = (Inl ValueError, ?s)" by blast
  from h a b c d show ?thesis by simp
qed


subsection \<open>Instrumentation\<close>

text \<open>
  C3. \<open>Cache.store\<close> is the counting wrapper around the history wrapper around the
  body. On a \<open>Cache\<close> whose counter can be incremented, the counter is incremented
  first and the rest of the call runs in the database that has the new count; whatever
  the rest of the call does, whether the body raises, an append to the history raises,
  or the call returns, the counter afterwards is the incremented one.
\<close>

theorem store_counts_every_attempt:
  assumes "recognized self = Inr True"
    and "counter_of s ''Cache.store'' = Some k" and "k < 2 ^ 63 - 1"
  shows "Cache_store rt u = count_calls (call_history rt (store_raw rt u))
       \<and> call (Cache_store rt u) self args kw s =
           call (call_history rt (store_raw rt u)) self args kw
             (s(''Cache.store'' \<mapsto> RStr (int_repr (k + 1))))
       \<and> counter_of (snd (call (Cache_store rt u) self args kw s)) ''Cache.store'' = Some (k + 1)"
proof -
  let ?s1 = "s(''Cache.store'' \<mapsto> RStr (int_repr (k + 1)))"
  have step: "call (Cache_store rt u) self args kw s =
                call (call_history rt (store_raw rt u)) self args kw ?s1"
    using count_calls_recognized [OF assms(1), of s "call_history rt (store_raw rt u)" k args kw] assms(2,3)
    by (simp add: Cache_store_def qualname_simps)
  have "snd (call (Cache_store rt u) self args kw s) ''Cache.store'' = ?s1 ''Cache.store''"
    unfolding step by (rule history_store_keeps_counter)
  then have "counter_of (snd (call (Cache_store rt u) self args kw s)) ''Cache.store''
               = string2ll (int_repr (k + 1))"
    by (simp add: counter_of_def)
  also have "\<dots> = Some (k + 1)"
    using counter_of_range [OF assms(2)] assms(3) by (simp add: string2ll_int_repr)
  finally show ?thesis using step by (simp add: Cache_store_def)
qed


theorem store_counts_every_attempt_witness:
  "recognized a_cache = Inr True
   \<and> counter_of empty_db ''Cache.store'' = Some 0
   \<and> counter_of (empty_db(''Cache.store:inputs'' \<mapsto> RStr ''x'')) ''Cache.store'' = Some 0
   \<and> (0 :: int) < 2 ^ 63 - 1
   \<and> fst (call (Cache_store ascii_runtime 7) a_cache [] [] empty_db) = Inl TypeError
   \<and> counter_of (snd (call (Cache_store ascii_runtime 7) a_cache [] [] empty_db)) ''Cache.store''
        = Some 1
   \<and> fst (call (Cache_store ascii_runtime 7) a_cache [PInt 5] []
             (empty_db(''Cache.store:inputs'' \<mapsto> RStr ''x''))) = Inl ResponseError
   \<and> counter_of (snd (call (Cache_store ascii_runtime 7) a_cache [PInt 5] []
             (empty_db(''Cache.store:inputs'' \<mapsto> RStr ''x'')))) ''Cache.store'' = Some 1
   \<and> fst (call (Cache_store ascii_runtime 7) a_cache [PInt huge_int] [] empty_db) = Inl ValueError
   \<and> counter_of (snd (call (Cache_store ascii_runtime 7) a_cache [PInt huge_int] [] empty_db))
        ''Cache.store'' = Some 1"
proof -
  have h1: "recognized a_cache = Inr True" by (simp add: recognized_def a_cache_def)
  have h2: "counter_of empty_db ''Cache.store'' = Some 0"
    by (simp add: counter_of_def empty_db_def)
  have h2': "counter_of (empty_db(''Cache.store:inputs'' \<mapsto> RStr ''x'')) ''Cache.store'' = Some 0"
    by (simp add: counter_of_def empty_db_def)
  have h3: "(0 :: int) < 2 ^ 63 - 1" by simp
  have p5: "py_int_repr 5 = Inr (int_repr 5)" by (rule py_int_repr_small) simp
  have ph: "py_int_repr huge_int = Inl ValueError"
    by (rule py_int_repr_huge) (simp add: huge_int_def)
  have a: "fst (call (Cache_store ascii_runtime 7) a_cache [] [] empty_db) = Inl TypeError"
    by (simp add: Cache_store_def count_calls_def call_history_def store_raw_def recognized_def
        a_cache_def redis_incr_def empty_db_def)
  have b: "fst (call (Cache_store ascii_runtime 7) a_cache [PInt 5] []
             (empty_db(''Cache.store:inputs'' \<mapsto> RStr ''x''))) = Inl ResponseError"
    by (simp add: Cache_store_def count_calls_def call_history_def store_raw_def recognized_def
        a_cache_def redis_incr_def empty_db_def redis_set_def redis_rpush_def Let_def
        py_str_tuple_def p5)
  have c: "fst (call (Cache_store ascii_runtime 7) a_cache [PInt huge_int] [] empty_db)
             = Inl ValueError"
    using Cache_store_body_refused [OF h1 h2 h3, of "[PInt huge_int]" "[]" "PInt huge_int"
        ascii_runtime ValueError 7] ph
    by simp
  show ?thesis
    using h1 h2 h2' a b c
      store_counts_every_attempt [OF h1 h2 h3, of ascii_runtime 7 "[]" "[]",
        THEN conjunct2, THEN conjunct2]
      store_counts_every_attempt [OF h1 h2' h3, of ascii_runtime 7 "[PInt 5]" "[]",
        THEN conjunct2, THEN conjunct2]
      store_counts_every_attempt [OF h1 h2 h3, of ascii_runtime 7 "[PInt huge_int]" "[]",
        THEN conjunct2, THEN conjunct2]
    by simp
qed

text \<open>
  C4, as the code has it. On a recognised \<open>Cache\<close>, once the wrapped method has
  returned, the history wrapper forms \<open>str(args)\<close>. If that raises (an int argument
  of more than 4300 digits), the wrapper raises with nothing appended. Otherwise it
  appends the text to the list \<open>"<qualname>:inputs"\<close>, then the value returned to the
  list \<open>"<qualname>:outputs"\<close>, and returns that value, provided that the two keys
  hold lists or are absent and that the value is one the client can encode. When the
  inputs key holds something else, nothing is appended; when the value cannot be
  encoded or the outputs key holds something else, the inputs entry is already
  written: inputs come first. The wrappers keep the \<open>__qualname__\<close> of the method,
  and the counter key is that name, with no suffix.
\<close>

theorem call_history_appends:
  assumes "recognized self = Inr True"
    and "call m self args kw s = (Inr rv, s1)"
  shows "(\<forall>t ins outs b. py_str_tuple rt args = Inr t
            \<and> log_of s1 (qualname m @ '':inputs'') = Some ins
            \<and> log_of s1 (qualname m @ '':outputs'') = Some outs
            \<and> encode rt rv = Inr b \<longrightarrow>
            call (call_history rt m) self args kw s =
              (Inr rv, s1(qualname m @ '':inputs'' \<mapsto> RList (ins @ [t]),
                          qualname m @ '':outputs'' \<mapsto> RList (outs @ [b]))))
       \<and> (\<forall>e. py_str_tuple rt args = Inl e \<longrightarrow>
            call (call_history rt m) self args kw s = (Inl e, s1))
       \<and> (\<forall>t. py_str_tuple rt args = Inr t \<and> log_of s1 (qualname m @ '':inputs'') = None \<longrightarrow>
            call (call_history rt m) self args kw s = (Inl ResponseError, s1))
       \<and> (\<forall>t ins e. py_str_tuple rt args = Inr t
            \<and> log_of s1 (qualname m @ '':inputs'') = Some ins \<and> encode rt rv = Inl e \<longrightarrow>
            call (call_history rt m) self args kw s =
              (Inl e, s1(qualname m @ '':inputs'' \<mapsto> RList (ins @ [t]))))
       \<and> (\<forall>t ins b. py_str_tuple rt args = Inr t
            \<and> log_of s1 (qualname m @ '':inputs'') = Some ins
            \<and> log_of s1 (qualname m @ '':outputs'') = None \<and> encode rt rv = Inr b \<longrightarrow>
            call (call_history rt m) self args kw s =
              (Inl ResponseError, s1(qualname m @ '':inputs'' \<mapsto> RList (ins @ [t]))))
       \<and> qualname (call_history rt m) = qualname m
       \<and> qualname (count_calls (call_history rt m)) = qualname m
       \<and> (\<forall>k s0. counter_of s0 (qualname m) = Some k \<and> k < 2 ^ 63 - 1 \<longrightarrow>
            call (count_calls m) self args kw s0 =
              call m self args kw (s0(qualname m \<mapsto> RStr (int_repr (k + 1)))))"
proof -
  have 5: "call (call_history rt m) self args kw s =
              (Inl ResponseError, s1(qualname m @ '':inputs'' \<mapsto> RList (ins @ [t])))"
    if "py_str_tuple rt args = Inr t" and "log_of s1 (qualname m @ '':inputs'') = Some ins"
      and "log_of s1 (qualname m @ '':outputs'') = None" and "encode rt rv = Inr b"
    for t ins b
  proof -
    have 1: "redis_rpush rt (qualname m @ '':inputs'') (PStr t) s1 =
               (Inr (Suc (length ins)), s1(qualname m @ '':inputs'' \<mapsto> RList (ins @ [t])))"
      using that(2) by (simp add: redis_rpush_Some)
    have 2: "log_of (s1(qualname m @ '':inputs'' \<mapsto> RList (ins @ [t])))
               (qualname m @ '':outputs'') = None"
      using that(3) by (simp add: log_of_other)
    show ?thesis
      using assms that(1) 1 redis_rpush_None [OF 2 that(4)]
      by (simp add: call_history_def Let_def)
  qed
  show ?thesis
    using call_history_recognized [OF assms] call_history_output_refused [OF assms]
      call_history_args_refused [OF assms] call_history_inputs_refused [OF assms]
      count_calls_recognized [OF assms(1)] 5
    by (simp add: qualname_simps)
qed

text \<open>
  C4, as stated, says that every call appends both entries and returns the result. The
  method \<open>Probe.run\<close> returns 1 and leaves its mark, yet the history wrapper raises and
  appends nothing when the argument is an int of 4301 digits (\<open>ValueError\<close> from
  \<open>str(args)\<close>) and when the inputs key holds a string (\<open>ResponseError\<close>).
\<close>

theorem call_history_raises:
  "call probe a_cache [PInt huge_int] [] empty_db
     = (Inr (PInt 1), empty_db(''ran'' \<mapsto> RStr ''yes''))
   \<and> call (call_history ascii_runtime probe) a_cache [PInt huge_int] [] empty_db
     = (Inl ValueError, empty_db(''ran'' \<mapsto> RStr ''yes''))
   \<and> call (call_history ascii_runtime probe) a_cache [PInt 2] []
        (empty_db(''Probe.run:inputs'' \<mapsto> RStr ''x''))
     = (Inl ResponseError, empty_db(''Probe.run:inputs'' \<mapsto> RStr ''x'', ''ran'' \<mapsto> RStr ''yes''))"
proof -
  have ph: "py_int_repr huge_int = Inl ValueError"
    by (rule py_int_repr_huge) (simp add: huge_int_def)
  have p2: "py_int_repr 2 = Inr (int_repr 2)" by (rule py_int_repr_small) simp
  show ?thesis
    by (simp add: probe_def call_history_def recognized_def a_cache_def py_str_tuple_def ph p2
        redis_rpush_def empty_db_def)
qed

theorem call_history_appends_witness:
  "recognized a_cache = Inr True
   \<and> call probe a_cache [PStr ''foo'', PInt 2] [] empty_db
        = (Inr (PInt 1), empty_db(''ran'' \<mapsto> RStr ''yes''))
   \<and> py_str_tuple ascii_runtime [PStr ''foo'', PInt 2] = Inr ''('foo', 2)''
   \<and> log_of (empty_db(''ran'' \<mapsto> RStr ''yes'')) (qualname probe @ '':inputs'') = Some []
   \<and> log_of (empty_db(''ran'' \<mapsto> RStr ''yes'')) (qualname probe @ '':outputs'') = Some []
   \<and> encode ascii_runtime (PInt 1) = Inr ''1''
   \<and> call (call_history ascii_runtime probe) a_cache [PStr ''foo'', PInt 2] [] empty_db
        = (Inr (PInt 1),
           empty_db(''ran'' \<mapsto> RStr ''yes'',
                    ''Probe.run:inputs'' \<mapsto> RList [''('foo', 2)''],
                    ''Probe.run:outputs'' \<mapsto> RList [''1'']))"
proof -
  have h1: "recognized a_cache = Inr True" by (simp add: recognized_def a_cache_def)
  have h2: "call probe a_cache [PStr ''foo'', PInt 2] [] empty_db
              = (Inr (PInt 1), empty_db(''ran'' \<mapsto> RStr ''yes''))"
    by (simp add: probe_def)
  have h3: "log_of (empty_db(''ran'' \<mapsto> RStr ''yes'')) (qualname probe @ '':inputs'') = Some []"
    by (simp add: log_of_def empty_db_def probe_def)
  have h4: "log_of (empty_db(''ran'' \<mapsto> RStr ''yes'')) (qualname probe @ '':outputs'') = Some []"
    by (simp add: log_of_def empty_db_def probe_def)
  have r1: "int_repr 1 = ''1''" by code_simp
  have r2: "int_repr 2 = ''2''" by code_simp
  have p1: "py_int_repr 1 = Inr ''1''" using py_int_repr_small [of 1] by (simp add: r1)
  have p2: "py_int_repr 2 = Inr ''2''" using py_int_repr_small [of 2] by (simp add: r2)
  have t: "py_str_tuple ascii_runtime [PStr ''foo'', PInt 2] = Inr ''('foo', 2)''"
    by (simp add: py_str_tuple_def ascii_runtime_def p2)
  have e: "encode ascii_runtime (PInt 1) = Inr ''1''" by (simp add: p1)
  have q: "qualname probe = ''Probe.run''" by (simp add: probe_def)
  from call_history_appends [OF h1 h2, of ascii_runtime, THEN conjunct1] t h3 h4 e
  have "call (call_history ascii_runtime probe) a_cache [PStr ''foo'', PInt 2] [] empty_db =
          (Inr (PInt 1),
           empty_db(''ran'' \<mapsto> RStr ''yes'',
                    qualname probe @ '':inputs'' \<mapsto> RList ([] @ [''('foo', 2)'']),
                    qualname probe @ '':outputs'' \<mapsto> RList ([] @ [''1''])))"
    by blast
  with h1 h2 h3 h4 t e show ?thesis by (simp add: q)
qed

text \<open>
  C5, as the code has it. When \<open>self\<close> is not a \<open>Cache\<close>, or is a \<open>Cache\<close> whose
  \<open>_redis\<close> holds a value that is not a client, both wrappers and their composition
  do exactly what the wrapped method does: same outcome, same database, no increment,
  no history entry, no exception of their own.
\<close>

theorem instrumentation_skipped:
  assumes "\<not> is_Cache self \<or> redis_attr self = OtherValue"
  shows "call (count_calls m) self args kw s = call m self args kw s
       \<and> call (call_history rt m) self args kw s = call m self args kw s
       \<and> call (count_calls (call_history rt m)) self args kw s = call m self args kw s"
proof -
  from assms have r: "recognized self = Inr False"
    by (auto simp: recognized_def)
  have 1: "\<And>m'. call (count_calls m') self args kw s = call m' self args kw s"
    using r by (simp add: count_calls_def)
  have 2: "call (call_history rt m) self args kw s = call m self args kw s"
    using r by (simp add: call_history_def Let_def split: prod.splits sum.splits)
  show ?thesis using 1 2 by simp
qed

text \<open>
  C5, as stated, also covers a \<open>Cache\<close> that has no attribute \<open>_redis\<close>. There the
  test reads \<open>self._redis\<close> and raises \<open>AttributeError\<close>: the counting wrapper
  raises before the method runs, and the history wrapper raises after it ran, so its
  result is lost.
\<close>

theorem instrumentation_raises_without_attr:
  "call probe cache_without_attr [] [] empty_db = (Inr (PInt 1), empty_db(''ran'' \<mapsto> RStr ''yes''))
   \<and> call (count_calls probe) cache_without_attr [] [] empty_db = (Inl AttributeError, empty_db)
   \<and> call (call_history ascii_runtime probe) cache_without_attr [] [] empty_db
        = (Inl AttributeError, empty_db(''ran'' \<mapsto> RStr ''yes''))"
  by (simp add: probe_def cache_without_attr_def count_calls_def call_history_def recognized_def)

theorem instrumentation_skipped_witness:
  "\<not> is_Cache other_object
   \<and> redis_attr cache_with_None = OtherValue
   \<and> call (count_calls (call_history ascii_runtime probe)) other_object [] [] empty_db
        = (Inr (PInt 1), empty_db(''ran'' \<mapsto> RStr ''yes''))
   \<and> call (count_calls (call_history ascii_runtime probe)) cache_with_None [] [] empty_db
        = (Inr (PInt 1), empty_db(''ran'' \<mapsto> RStr ''yes''))"
proof -
  have h1: "\<not> is_Cache other_object \<or> redis_attr other_object = OtherValue"
    by (simp add: other_object_def)
  have h2: "\<not> is_Cache cache_with_None \<or> redis_attr cache_with_None = OtherValue"
    by (simp add: cache_with_None_def)
  have p: "\<And>self. call probe self [] [] empty_db = (Inr (PInt 1), empty_db(''ran'' \<mapsto> RStr ''yes''))"
    by (simp add: probe_def)
  have g1: "\<not> is_Cache other_object" by (simp add: other_object_def)
  have g2: "redis_attr cache_with_None = OtherValue" by (simp add: cache_with_None_def)
  show ?thesis
    using g1 g2 p instrumentation_skipped [OF h1, of probe "[]" "[]" empty_db ascii_runtime]
      instrumentation_skipped [OF h2, of probe "[]" "[]" empty_db ascii_runtime]
    by simp
qed


text \<open>
  C10, as the code has it. On a recognised \<open>Cache\<close> whose counter can be incremented,
  the two wrappers hand the keyword arguments to the wrapped method as they are, and
  the keyword arguments act on the call through that method only. When the method
  returns, \<open>str(args)\<close> can be formed, the two log keys hold lists or are absent and
  the result can be encoded, the call returns the method's result and the entry appended
  to the inputs log is \<open>str(args)\<close>, in which the keyword arguments do not occur; the
  keys written are made from the \<open>__qualname__\<close> only. When \<open>str(args)\<close> raises (a
  positional int of more than 4300 digits), the call raises after the method ran and
  records nothing; when the method raises, the call raises the same.
\<close>

theorem kwargs_forwarded_not_recorded:
  assumes "recognized self = Inr True"
    and "counter_of s (qualname m) = Some k" and "k < 2 ^ 63 - 1"
  shows "(\<forall>rv s1 t ins outs b.
            call m self args kw (s(qualname m \<mapsto> RStr (int_repr (k + 1)))) = (Inr rv, s1)
            \<and> py_str_tuple rt args = Inr t
            \<and> log_of s1 (qualname m @ '':inputs'') = Some ins
            \<and> log_of s1 (qualname m @ '':outputs'') = Some outs
            \<and> encode rt rv = Inr b \<longrightarrow>
            call (count_calls (call_history rt m)) self args kw s =
              (Inr rv, s1(qualname m @ '':inputs'' \<mapsto> RList (ins @ [t]),
                          qualname m @ '':outputs'' \<mapsto> RList (outs @ [b]))))
       \<and> (\<forall>rv s1 e.
            call m self args kw (s(qualname m \<mapsto> RStr (int_repr (k + 1)))) = (Inr rv, s1)
            \<and> py_str_tuple rt args = Inl e \<longrightarrow>
            call (count_calls (call_history rt m)) self args kw s = (Inl e, s1))
       \<and> (\<forall>e s1.
            call m self args kw (s(qualname m \<mapsto> RStr (int_repr (k + 1)))) = (Inl e, s1) \<longrightarrow>
            call (count_calls (call_history rt m)) self args kw s = (Inl e, s1))
       \<and> (\<forall>kw'.
            call m self args kw' (s(qualname m \<mapsto> RStr (int_repr (k + 1))))
              = call m self args kw (s(qualname m \<mapsto> RStr (int_repr (k + 1)))) \<longrightarrow>
            call (count_calls (call_history rt m)) self args kw' s
              = call (count_calls (call_history rt m)) self args kw s)"
proof -
  let ?s0 = "s(qualname m \<mapsto> RStr (int_repr (k + 1)))"
  have c: "\<And>kw. call (count_calls (call_history rt m)) self args kw s =
             call (call_history rt m) self args kw ?s0"
    using count_calls_recognized [OF assms(1), of s "call_history rt m" k args] assms(2,3)
    by (simp add: qualname_simps)
  have 1: "\<forall>rv s1 t ins outs b.
            call m self args kw ?s0 = (Inr rv, s1)
            \<and> py_str_tuple rt args = Inr t
            \<and> log_of s1 (qualname m @ '':inputs'') = Some ins
            \<and> log_of s1 (qualname m @ '':outputs'') = Some outs
            \<and> encode rt rv = Inr b \<longrightarrow>
            call (count_calls (call_history rt m)) self args kw s =
              (Inr rv, s1(qualname m @ '':inputs'' \<mapsto> RList (ins @ [t]),
                          qualname m @ '':outputs'' \<mapsto> RList (outs @ [b])))"
    unfolding c using call_history_recognized [OF assms(1)] by blast
  have 2: "\<forall>rv s1 e. call m self args kw ?s0 = (Inr rv, s1) \<and> py_str_tuple rt args = Inl e \<longrightarrow>
            call (count_calls (call_history rt m)) self args kw s = (Inl e, s1)"
    unfolding c using call_history_args_refused [OF assms(1)] by blast
  have 3: "\<forall>e s1. call m self args kw ?s0 = (Inl e, s1) \<longrightarrow>
            call (count_calls (call_history rt m)) self args kw s = (Inl e, s1)"
    unfolding c using call_history_failed by blast
  have 4: "\<forall>kw'. call m self args kw' ?s0 = call m self args kw ?s0 \<longrightarrow>
            call (count_calls (call_history rt m)) self args kw' s
              = call (count_calls (call_history rt m)) self args kw s"
    unfolding c by (simp add: call_history_def Let_def)
  from 1 2 3 4 show ?thesis by blast
qed

text \<open>
  C10, as stated, says that every call made with keyword arguments returns the result
  of the wrapped method. \<open>Probe.run\<close>, called with an int of 4301 digits and a keyword
  argument, ran and returned 1; the decorated call raises \<open>ValueError\<close> instead, with
  the counter incremented and no history entry.
\<close>

theorem kwargs_call_raises:
  "call probe a_cache [PInt huge_int] [(''flag'', PBool True)]
        (empty_db(''Probe.run'' \<mapsto> RStr ''1''))
     = (Inr (PInt 1), empty_db(''Probe.run'' \<mapsto> RStr ''1'', ''ran'' \<mapsto> RStr ''yes''))
   \<and> call (count_calls (call_history ascii_runtime probe)) a_cache [PInt huge_int]
        [(''flag'', PBool True)] empty_db
     = (Inl ValueError, empty_db(''Probe.run'' \<mapsto> RStr ''1'', ''ran'' \<mapsto> RStr ''yes''))"
proof -
  have ph: "py_int_repr huge_int = Inl ValueError"
    by (rule py_int_repr_huge) (simp add: huge_int_def)
  have r1: "int_repr 1 = ''1''" by code_simp
  show ?thesis
    by (simp add: probe_def count_calls_def call_history_def recognized_def a_cache_def
        py_str_tuple_def ph redis_incr_def empty_db_def r1)
qed

theorem kwargs_forwarded_not_recorded_witness:
  "recognized a_cache = Inr True
   \<and> counter_of empty_db (qualname (store_raw ascii_runtime 7)) = Some 0
   \<and> (0 :: int) < 2 ^ 63 - 1
   \<and> call (store_raw ascii_runtime 7) a_cache [] [(''data'', PInt 5)]
         (empty_db(qualname (store_raw ascii_runtime 7) \<mapsto> RStr (int_repr (0 + 1))))
        = (Inr (PStr (uuid_str 7)),
           empty_db(''Cache.store'' \<mapsto> RStr ''1'', uuid_str 7 \<mapsto> RStr ''5''))
   \<and> py_str_tuple ascii_runtime [] = Inr ''()''
   \<and> encode ascii_runtime (PStr (uuid_str 7)) = Inr (uuid_str 7)
   \<and> call (Cache_store ascii_runtime 7) a_cache [] [(''data'', PInt 5)] empty_db
        = (Inr (PStr (uuid_str 7)),
           empty_db(''Cache.store'' \<mapsto> RStr ''1'', uuid_str 7 \<mapsto> RStr ''5'',
                    ''Cache.store:inputs'' \<mapsto> RList [''()''],
                    ''Cache.store:outputs'' \<mapsto> RList [uuid_str 7]))"
proof -
  let ?m = "store_raw ascii_runtime 7"
  let ?s1 = "empty_db(''Cache.store'' \<mapsto> RStr ''1'', uuid_str 7 \<mapsto> RStr ''5'')"
  have q: "qualname ?m = ''Cache.store''" by (simp add: store_raw_def)
  have r1: "int_repr 1 = ''1''" by code_simp
  have r5: "int_repr 5 = ''5''" by code_simp
  have p5: "py_int_repr 5 = Inr ''5''" using py_int_repr_small [of 5] by (simp add: r5)
  have h1: "recognized a_cache = Inr True" by (simp add: recognized_def a_cache_def)
  have h2: "counter_of empty_db (qualname ?m) = Some 0"
    by (simp add: counter_of_def empty_db_def)
  have h3: "(0 :: int) < 2 ^ 63 - 1" by simp
  have h4: "call ?m a_cache [] [(''data'', PInt 5)]
              (empty_db(qualname ?m \<mapsto> RStr (int_repr (0 + 1)))) = (Inr (PStr (uuid_str 7)), ?s1)"
    by (simp add: store_raw_def a_cache_def redis_set_def r1 p5 Let_def)
  have u: "uuid_str 7 \<noteq> ''Cache.store:inputs''" "uuid_str 7 \<noteq> ''Cache.store:outputs''"
    using length_uuid_str [of 7] by auto
  have h5: "log_of ?s1 (qualname ?m @ '':inputs'') = Some []"
    using u by (simp add: q log_of_def empty_db_def)
  have h6: "log_of ?s1 (qualname ?m @ '':outputs'') = Some []"
    using u by (simp add: q log_of_def empty_db_def)
  have h7: "encode ascii_runtime (PStr (uuid_str 7)) = Inr (uuid_str 7)" by simp
  have t: "py_str_tuple ascii_runtime [] = Inr ''()''" by (simp add: py_str_tuple_def)
  from kwargs_forwarded_not_recorded [OF h1 h2 h3, of "[]" "[(''data'', PInt 5)]" ascii_runtime,
      THEN conjunct1] h4 t h5 h6 h7
  have "call (count_calls (call_history ascii_runtime ?m)) a_cache [] [(''data'', PInt 5)] empty_db =
          (Inr (PStr (uuid_str 7)),
           ?s1(qualname ?m @ '':inputs'' \<mapsto> RList ([] @ [''()'']),
               qualname ?m @ '':outputs'' \<mapsto> RList ([] @ [uuid_str 7])))"
    by blast
  with h1 h2 h3 h4 h7 t show ?thesis by (simp add: q Cache_store_def)
qed


subsection \<open>Round trip, runs of calls, replay\<close>





text \<open>
  C2. After \<open>n\<close> calls to \<open>store\<close> in a row on a new \<open>Cache\<close>, all of which returned,
  the counter under \<open>Cache.store\<close> is \<open>n\<close>, each log has \<open>n\<close> entries, the inputs
  log holds \<open>str(args)\<close> of each call in order, and the outputs log holds the keys
  the calls returned, in order.
\<close>

theorem store_calls_counted_and_logged:
  assumes "Cache_init s0 = (Inr self, s)"
    and "store_calls rt self cs s = (rs, s')"
    and "\<forall>r\<in>set rs. \<exists>v. r = Inr v"
  shows "counter_of s' ''Cache.store'' = Some (int (length cs))
       \<and> (\<exists>ins. log_of s' ''Cache.store:inputs'' = Some ins \<and> length ins = length cs
             \<and> map Inr ins = map (\<lambda>(args, kw, u). py_str_tuple rt args) cs)
       \<and> log_of s' ''Cache.store:outputs'' = Some (map (\<lambda>(args, kw, u). uuid_str u) cs)
       \<and> rs = map (\<lambda>(args, kw, u). Inr (PStr (uuid_str u))) cs
       \<and> (\<exists>ins outs. log_of s' ''Cache.store:inputs'' = Some ins \<and> length ins = length cs
             \<and> log_of s' ''Cache.store:outputs'' = Some outs \<and> length outs = length cs)"
proof -
  from assms(1) have self: "self = a_cache" and s: "s = empty_db"
    by (auto simp: Cache_init_def redis_flushdb_def a_cache_def empty_db_def Let_def)
  have r: "recognized self = Inr True" unfolding self by (rule recognized_a_cache)
  have k: "counter_of s ''Cache.store'' = Some 0" unfolding s by (rule counter_of_empty)
  have i: "log_of s ''Cache.store:inputs'' = Some []" unfolding s by (rule log_of_empty)
  have ou: "log_of s ''Cache.store:outputs'' = Some []" unfolding s by (rule log_of_empty)
  from store_calls_invariant [OF r assms(2,3) k i ou]
  obtain ts where inv: "rs = map (\<lambda>(args, kw, u). Inr (PStr (uuid_str u))) cs"
    "counter_of s' ''Cache.store'' = Some (0 + int (length cs))"
    "map Inr ts = map (\<lambda>(args, kw, u). py_str_tuple rt args) cs"
    "log_of s' ''Cache.store:inputs'' = Some ([] @ ts)"
    "log_of s' ''Cache.store:outputs'' = Some ([] @ map (\<lambda>(args, kw, u). uuid_str u) cs)"
    by blast
  from inv(3) have len: "length ts = length cs"
    by (rule map_eq_imp_length_eq)
  have A: "\<exists>ins. log_of s' ''Cache.store:inputs'' = Some ins \<and> length ins = length cs
             \<and> map Inr ins = map (\<lambda>(args, kw, u). py_str_tuple rt args) cs"
    using inv(3,4) len by auto
  have B: "\<exists>ins outs. log_of s' ''Cache.store:inputs'' = Some ins \<and> length ins = length cs
             \<and> log_of s' ''Cache.store:outputs'' = Some outs \<and> length outs = length cs"
    using inv(4,5) len by auto
  from inv(1,2,5) A B show ?thesis by simp
qed

theorem store_calls_counted_and_logged_witness:
  "Cache_init empty_db = (Inr a_cache, empty_db)
   \<and> fst (store_calls ascii_runtime a_cache
              [([PStr ''foo''], [], 1), ([PBytes ''bar''], [], 2)] empty_db)
        = [Inr (PStr (uuid_str 1)), Inr (PStr (uuid_str 2))]
   \<and> counter_of (snd (store_calls ascii_runtime a_cache
              [([PStr ''foo''], [], 1), ([PBytes ''bar''], [], 2)] empty_db)) ''Cache.store''
        = Some 2
   \<and> log_of (snd (store_calls ascii_runtime a_cache
              [([PStr ''foo''], [], 1), ([PBytes ''bar''], [], 2)] empty_db)) ''Cache.store:inputs''
        = Some [''('foo',)'', ''(b'bar',)'']
   \<and> log_of (snd (store_calls ascii_runtime a_cache
              [([PStr ''foo''], [], 1), ([PBytes ''bar''], [], 2)] empty_db)) ''Cache.store:outputs''
        = Some [uuid_str 1, uuid_str 2]"
proof -
  let ?cs = "[([PStr ''foo''], [], 1), ([PBytes ''bar''], [], 2)] :: (pyval list \<times> kwargs \<times> 128 word) list"
  let ?run = "store_calls ascii_runtime a_cache ?cs empty_db"
  have h1: "Cache_init empty_db = (Inr a_cache, empty_db)"
    by (simp add: Cache_init_def redis_flushdb_def a_cache_def empty_db_def)
  have r: "recognized a_cache = Inr True" by (simp add: recognized_def a_cache_def)
  have k0: "counter_of empty_db ''Cache.store'' = Some 0"
    by (simp add: counter_of_def empty_db_def)
  have i0: "log_of empty_db ''Cache.store:inputs'' = Some []"
    by (simp add: log_of_def empty_db_def)
  have o0: "log_of empty_db ''Cache.store:outputs'' = Some []"
    by (simp add: log_of_def empty_db_def)
  have lt: "(0 :: int) < 2 ^ 63 - 1" "(0 + 1 :: int) < 2 ^ 63 - 1" by simp_all
  have b1: "bind_data [PStr ''foo''] [] = Inr (PStr ''foo'')" by simp
  have e1: "encode ascii_runtime (PStr ''foo'') = Inr ''foo''" by simp
  have b2: "bind_data [PBytes ''bar''] [] = Inr (PBytes ''bar'')" by simp
  have e2: "encode ascii_runtime (PBytes ''bar'') = Inr ''bar''" by simp
  have t: "py_str_tuple ascii_runtime [PStr ''foo''] = Inr ''('foo',)''"
    "py_str_tuple ascii_runtime [PBytes ''bar''] = Inr ''(b'bar',)''"
    by (simp_all add: py_str_tuple_def ascii_runtime_def)
  obtain s1 where c1: "call (Cache_store ascii_runtime 1) a_cache [PStr ''foo''] [] empty_db
                         = (Inr (PStr (uuid_str 1)), s1)"
    using Cache_store_returns [OF r k0 lt(1) i0 o0 b1 e1 t(1), of 1] by blast
  from Cache_store_success [OF r k0 i0 o0 c1] t(1)
  have k1: "counter_of s1 ''Cache.store'' = Some (0 + 1)"
    and i1: "log_of s1 ''Cache.store:inputs'' = Some ([] @ [''('foo',)''])"
    and o1: "log_of s1 ''Cache.store:outputs'' = Some ([] @ [uuid_str 1])"
    by auto
  obtain s2 where c2: "call (Cache_store ascii_runtime 2) a_cache [PBytes ''bar''] [] s1
                         = (Inr (PStr (uuid_str 2)), s2)"
    using Cache_store_returns [OF r k1 lt(2) i1 o1 b2 e2 t(2), of 2] by blast
  have run: "?run = ([Inr (PStr (uuid_str 1)), Inr (PStr (uuid_str 2))], s2)"
    using c1 c2 by simp
  have h3: "\<forall>r\<in>set [Inr (PStr (uuid_str 1)), Inr (PStr (uuid_str 2)) :: pyerr + pyval]. \<exists>v. r = Inr v"
    by simp
  from store_calls_counted_and_logged [OF h1 run h3]
  obtain ins where c: "counter_of s2 ''Cache.store'' = Some (int (length ?cs))"
    and i: "log_of s2 ''Cache.store:inputs'' = Some ins"
    and m: "map Inr ins = map (\<lambda>(args, kw, u). py_str_tuple ascii_runtime args) ?cs"
    and o: "log_of s2 ''Cache.store:outputs'' = Some (map (\<lambda>(args, kw, u). uuid_str u) ?cs)"
    by blast
  from m t have "map (Inr :: string \<Rightarrow> pyerr + string) ins = map Inr [''('foo',)'', ''(b'bar',)'']"
    by simp
  then have ins: "ins = [''('foo',)'', ''(b'bar',)'']"
    by (rule map_injective) (rule inj_Inr)
  from h1 run c i o ins show ?thesis by simp
qed

text \<open>
  C8, as the code has it. \<open>replay\<close> leaves every database as it found it. When one of
  the two keys of the method holds something that is not a list, it raises
  \<open>ResponseError\<close> and prints nothing. When both hold lists or are absent, it prints
  the header with the name and the number of \<open>inputs\<close> entries, whatever the counter
  says, and then one line \<open>name(*input) -> output\<close> for each pair, as many as the
  shorter log has, stopping with \<open>UnicodeDecodeError\<close> at the first pair with an entry
  that is not UTF-8: when every paired entry is UTF-8, all the lines are printed.
\<close>

theorem replay_prints_history:
  "snd (snd (replay m s)) = s
   \<and> (log_of s (qualname m @ '':inputs'') = None \<or> log_of s (qualname m @ '':outputs'') = None
        \<longrightarrow> fst (replay m s) = Inl ResponseError \<and> fst (snd (replay m s)) = [])
   \<and> (\<forall>ins outs.
        log_of s (qualname m @ '':inputs'') = Some ins
        \<and> log_of s (qualname m @ '':outputs'') = Some outs \<longrightarrow>
          fst (replay m s) =
            (if list_all (\<lambda>p. valid_utf8 (fst p) \<and> valid_utf8 (snd p)) (zip ins outs) then Inr ()
             else Inl UnicodeDecodeError)
          \<and> fst (snd (replay m s)) =
              (qualname m @ '' was called '' @ int_repr (int (length ins)) @ '' times:'')
                # map (\<lambda>(i, ou). qualname m @ ''(*'' @ i @ '') -> '' @ ou)
                    (takeWhile (\<lambda>p. valid_utf8 (fst p) \<and> valid_utf8 (snd p)) (zip ins outs)))
   \<and> (\<forall>ins outs.
        log_of s (qualname m @ '':inputs'') = Some ins
        \<and> log_of s (qualname m @ '':outputs'') = Some outs
        \<and> (\<forall>p\<in>set (zip ins outs). valid_utf8 (fst p) \<and> valid_utf8 (snd p)) \<longrightarrow>
          fst (replay m s) = Inr ()
          \<and> fst (snd (replay m s)) =
              (qualname m @ '' was called '' @ int_repr (int (length ins)) @ '' times:'')
                # map (\<lambda>(i, ou). qualname m @ ''(*'' @ i @ '') -> '' @ ou) (zip ins outs)
          \<and> length (fst (snd (replay m s))) = 1 + min (length ins) (length outs))"
proof -
  have 1: "snd (snd (replay m s)) = s" by (rule replay_state)
  have 2: "log_of s (qualname m @ '':inputs'') = None \<or> log_of s (qualname m @ '':outputs'') = None
        \<longrightarrow> fst (replay m s) = Inl ResponseError \<and> fst (snd (replay m s)) = []"
    using replay_wrong_type [of s m] by auto
  have 3: "\<forall>ins outs.
        log_of s (qualname m @ '':inputs'') = Some ins
        \<and> log_of s (qualname m @ '':outputs'') = Some outs \<longrightarrow>
          fst (replay m s) =
            (if list_all (\<lambda>p. valid_utf8 (fst p) \<and> valid_utf8 (snd p)) (zip ins outs) then Inr ()
             else Inl UnicodeDecodeError)
          \<and> fst (snd (replay m s)) =
              (qualname m @ '' was called '' @ int_repr (int (length ins)) @ '' times:'')
                # map (\<lambda>(i, ou). qualname m @ ''(*'' @ i @ '') -> '' @ ou)
                    (takeWhile (\<lambda>p. valid_utf8 (fst p) \<and> valid_utf8 (snd p)) (zip ins outs))"
    by (simp add: replay_on_logs)
  have 4: "fst (replay m s) = Inr ()
          \<and> fst (snd (replay m s)) =
              (qualname m @ '' was called '' @ int_repr (int (length ins)) @ '' times:'')
                # map (\<lambda>(i, ou). qualname m @ ''(*'' @ i @ '') -> '' @ ou) (zip ins outs)
          \<and> length (fst (snd (replay m s))) = 1 + min (length ins) (length outs)"
    if "log_of s (qualname m @ '':inputs'') = Some ins"
      and "log_of s (qualname m @ '':outputs'') = Some outs"
      and "\<forall>p\<in>set (zip ins outs). valid_utf8 (fst p) \<and> valid_utf8 (snd p)"
    for ins outs
  proof -
    from that(3) have a: "list_all (\<lambda>p. valid_utf8 (fst p) \<and> valid_utf8 (snd p)) (zip ins outs)"
      by (simp add: list_all_iff)
    show ?thesis
      by (simp add: replay_on_logs [OF that(1,2)] a takeWhile_all [OF a])
  qed
  from 1 2 3 4 show ?thesis by blast
qed

text \<open>
  C8, as stated, says that in every state the header and a line for each index are
  printed. When the inputs key holds a string, \<open>replay\<close> prints nothing and raises
  \<open>ResponseError\<close>; when the inputs log holds the byte \<open>ff\<close>, it prints the header
  and then raises \<open>UnicodeDecodeError\<close> with no line printed for that entry.
\<close>

theorem replay_raises:
  "replay (Cache_store ascii_runtime 0) (empty_db(''Cache.store:inputs'' \<mapsto> RStr ''x''))
     = (Inl ResponseError, [], empty_db(''Cache.store:inputs'' \<mapsto> RStr ''x''))
   \<and> replay (Cache_store ascii_runtime 0)
        (empty_db(''Cache.store:inputs'' \<mapsto> RList [[CHR 0xFF]],
                  ''Cache.store:outputs'' \<mapsto> RList [''k1'']))
     = (Inl UnicodeDecodeError, [''Cache.store was called 1 times:''],
        empty_db(''Cache.store:inputs'' \<mapsto> RList [[CHR 0xFF]],
                 ''Cache.store:outputs'' \<mapsto> RList [''k1'']))"
proof -
  have q: "qualname (Cache_store ascii_runtime 0) = ''Cache.store''"
    by (simp add: Cache_store_def qualname_simps)
  have r1: "int_repr 1 = ''1''" by code_simp
  have v: "\<not> valid_utf8 [CHR 0xFF]" by (simp add: utf8_lead_def)
  show ?thesis
    using v
    by (simp add: replay_def q redis_lrange_def empty_db_def Let_def utf8_decode_def r1)
qed

theorem replay_prints_history_witness:
  "fst (replay (Cache_store ascii_runtime 0)
          (empty_db(''Cache.store'' \<mapsto> RStr ''5'',
                    ''Cache.store:inputs'' \<mapsto> RList [''('foo',)'', ''(b'bar',)''],
                    ''Cache.store:outputs'' \<mapsto> RList [''k1'', ''k2''])))
     = Inr ()
   \<and> fst (snd (replay (Cache_store ascii_runtime 0)
          (empty_db(''Cache.store'' \<mapsto> RStr ''5'',
                    ''Cache.store:inputs'' \<mapsto> RList [''('foo',)'', ''(b'bar',)''],
                    ''Cache.store:outputs'' \<mapsto> RList [''k1'', ''k2'']))))
     = [''Cache.store was called 2 times:'',
        ''Cache.store(*('foo',)) -> k1'',
        ''Cache.store(*(b'bar',)) -> k2'']
   \<and> fst (snd (replay (Cache_store ascii_runtime 0)
          (empty_db(''Cache.store:inputs'' \<mapsto> RList [''('foo',)'', ''(b'bar',)''],
                    ''Cache.store:outputs'' \<mapsto> RList [''k1'']))))
     = [''Cache.store was called 2 times:'',
        ''Cache.store(*('foo',)) -> k1'']
   \<and> snd (snd (replay (Cache_store ascii_runtime 0)
          (empty_db(''Cache.store:inputs'' \<mapsto> RList [''('foo',)'', ''(b'bar',)''],
                    ''Cache.store:outputs'' \<mapsto> RList [''k1'']))))
     = empty_db(''Cache.store:inputs'' \<mapsto> RList [''('foo',)'', ''(b'bar',)''],
                ''Cache.store:outputs'' \<mapsto> RList [''k1''])"
proof -
  let ?m = "Cache_store ascii_runtime 0"
  let ?s = "empty_db(''Cache.store'' \<mapsto> RStr ''5'',
                    ''Cache.store:inputs'' \<mapsto> RList [''('foo',)'', ''(b'bar',)''],
                    ''Cache.store:outputs'' \<mapsto> RList [''k1'', ''k2''])"
  let ?t = "empty_db(''Cache.store:inputs'' \<mapsto> RList [''('foo',)'', ''(b'bar',)''],
                    ''Cache.store:outputs'' \<mapsto> RList [''k1''])"
  have q: "qualname ?m = ''Cache.store''"
    by (simp add: Cache_store_def qualname_simps)
  have r2: "int_repr 2 = ''2''" by code_simp
  have v: "valid_utf8 ''('foo',)''" "valid_utf8 ''(b'bar',)''" "valid_utf8 ''k1''" "valid_utf8 ''k2''"
    by (simp_all add: utf8_lead_def)
  have s1: "log_of ?s (qualname ?m @ '':inputs'') = Some [''('foo',)'', ''(b'bar',)'']"
    by (simp add: q log_of_def)
  have s2: "log_of ?s (qualname ?m @ '':outputs'') = Some [''k1'', ''k2'']"
    by (simp add: q log_of_def)
  have s3: "\<forall>p\<in>set (zip [''('foo',)'', ''(b'bar',)''] [''k1'', ''k2'']).
              valid_utf8 (fst p) \<and> valid_utf8 (snd p)"
    using v by simp
  have t1: "log_of ?t (qualname ?m @ '':inputs'') = Some [''('foo',)'', ''(b'bar',)'']"
    by (simp add: q log_of_def)
  have t2: "log_of ?t (qualname ?m @ '':outputs'') = Some [''k1'']"
    by (simp add: q log_of_def)
  have t3: "\<forall>p\<in>set (zip [''('foo',)'', ''(b'bar',)''] [''k1'']).
              valid_utf8 (fst p) \<and> valid_utf8 (snd p)"
    using v by simp
  from replay_prints_history [of ?m ?s] s1 s2 s3
  have a: "fst (replay ?m ?s) = Inr ()
           \<and> fst (snd (replay ?m ?s)) =
              (qualname ?m @ '' was called '' @ int_repr (int (length [''('foo',)'', ''(b'bar',)''])) @ '' times:'')
                # map (\<lambda>(i, ou). qualname ?m @ ''(*'' @ i @ '') -> '' @ ou)
                    (zip [''('foo',)'', ''(b'bar',)''] [''k1'', ''k2''])"
    by blast
  from replay_prints_history [of ?m ?t] t1 t2 t3
  have b: "fst (snd (replay ?m ?t)) =
              (qualname ?m @ '' was called '' @ int_repr (int (length [''('foo',)'', ''(b'bar',)''])) @ '' times:'')
                # map (\<lambda>(i, ou). qualname ?m @ ''(*'' @ i @ '') -> '' @ ou)
                    (zip [''('foo',)'', ''(b'bar',)''] [''k1''])"
    by blast
  from replay_prints_history [of ?m ?t] have c: "snd (snd (replay ?m ?t)) = ?t" by blast
  from a b c show ?thesis by (simp add: q r2)
qed


end
